theory Spec2Isabelle
  imports Main
begin

text \<open>
  A shallow embedding of the extraction-and-delivery pipeline of the webhook extension:
  the content script that reads profile and result pages (field extraction, detection of
  the shared-connections link, result rows, the multi-page session and its payloads) and
  the background script that queues payloads per endpoint and posts them with retries.
  Each function of the source is a function here under its own name; the DOM, the clock,
  the random generator and the network are explicit inputs; an exception is a value of
  a sum type.  The definitions come first, the properties after them.
\<close>

section \<open>JavaScript strings and the DOM, as the content script reads them\<close>

text \<open>
  Strings are lists of code units below 256 (the Latin-1 range of JavaScript's strings);
  text with other code units is outside the model.  \<open>is_space\<close> is the white space
  and line terminators that \<^verbatim>\<open>String.prototype.trim\<close> and the regular-expression class
  \<^verbatim>\<open>\s\<close> recognise in that range: tab, line feed, vertical tab, form feed, carriage
  return, space and the no-break space U+00A0.
\<close>

definition is_space :: "char \<Rightarrow> bool" where
  "is_space c = (c = CHR 0x09 \<or> c = CHR 0x0A \<or> c = CHR 0x0B \<or> c = CHR 0x0C
                 \<or> c = CHR 0x0D \<or> c = CHR '' '' \<or> c = CHR 0xA0)"

definition trim :: "string \<Rightarrow> string" where
  "trim s = rev (dropWhile is_space (rev (dropWhile is_space s)))"

definition is_digit :: "char \<Rightarrow> bool" where
  "is_digit c = (48 \<le> (of_char c :: nat) \<and> (of_char c :: nat) \<le> 57)"


definition to_lower :: "char \<Rightarrow> char" where
  "to_lower c = (if 65 \<le> (of_char c :: nat) \<and> (of_char c :: nat) \<le> 90
                 then char_of ((of_char c :: nat) + 32) else c)"

definition or_empty :: "string option \<Rightarrow> string" where
  \<comment> \<open>\<^verbatim>\<open>v || ''\<close> for a value that is a string or \<^verbatim>\<open>undefined\<close>\<close>
  "or_empty v = (case v of None \<Rightarrow> [] | Some s \<Rightarrow> s)"

definition str_includes :: "string \<Rightarrow> string \<Rightarrow> bool" where
  \<comment> \<open>\<^verbatim>\<open>s.includes(sub)\<close>\<close>
  "str_includes s sub = list_ex (\<lambda>i. take (length sub) (drop i s) = sub) [0 ..< Suc (length s)]"

text \<open>
  The \<^verbatim>\<open>href\<close> property of an element, as the browser computes it from the attribute
  with its URL parser: \<open>Undefined\<close> on an element that is not a link; \<open>Literal s\<close>
  where the property is not a URL, which is the empty string when there is no attribute
  and the text of the attribute when the parser fails on it; \<open>Resolved s\<close> where the
  parser succeeds, \<open>s\<close> being the absolute URL it serialises.  \<^verbatim>\<open>new URL(href)\<close> runs
  the same parser with no base: it succeeds on a serialised URL and throws on the rest.
\<close>

datatype href_value = Undefined | Literal string | Resolved string

definition href_text :: "href_value \<Rightarrow> string" where
  \<comment> \<open>\<^verbatim>\<open>el.href || ''\<close>\<close>
  "href_text h = (case h of Undefined \<Rightarrow> [] | Literal s \<Rightarrow> s | Resolved s \<Rightarrow> s)"


text \<open>
  An element carries what the script reads from it: its text, the \<^verbatim>\<open>href\<close> property,
  the \<^verbatim>\<open>src\<close> property (\<open>None\<close> where it is \<^verbatim>\<open>undefined\<close>), the \<^verbatim>\<open>disabled\<close>
  property, its attributes and its children.  Selector matching is the browser's:
  \<open>sat\<close> lists the selectors the element satisfies.  A selector group, written in the
  source as one comma-separated string, is the list of its members.  The engine \<open>eng\<close>
  is the list of members whose syntax the browser rejects; a group with a rejected member
  makes the whole query throw \<^verbatim>\<open>SyntaxError\<close>, and otherwise a query finds the
  descendants, in tree order, that satisfy some member.
\<close>

datatype node =
  Node (sat: "string list") (textContent: string) (innerText: "string option")
       (href: href_value) (src: "string option") (disabled: bool)
       (attributes: "(string \<times> string) list") (children: "node list")

fun descendants :: "node \<Rightarrow> node list" where
  "descendants (Node sa tc it hr sr di at ks) = concat (map (\<lambda>k. k # descendants k) ks)"

datatype js_error = SyntaxError | TypeError | Error string

type_synonym selector = "string list"

definition matches :: "selector \<Rightarrow> node \<Rightarrow> bool" where
  "matches g n = list_ex (\<lambda>s. s \<in> set (sat n)) g"

definition querySelectorAll :: "string list \<Rightarrow> node \<Rightarrow> selector \<Rightarrow> js_error + node list" where
  "querySelectorAll eng root g =
     (if list_ex (\<lambda>s. s \<in> set eng) g then Inl SyntaxError
      else Inr (filter (matches g) (descendants root)))"

definition querySelector :: "string list \<Rightarrow> node \<Rightarrow> selector \<Rightarrow> js_error + node option" where
  "querySelector eng root g =
     (if list_ex (\<lambda>s. s \<in> set eng) g then Inl SyntaxError
      else Inr (find (matches g) (descendants root)))"

definition getAttribute :: "node \<Rightarrow> string \<Rightarrow> string option" where
  "getAttribute el a = map_of (attributes el) a"

definition text_of :: "node \<Rightarrow> string" where
  \<comment> \<open>\<^verbatim>\<open>el.textContent || el.innerText || ''\<close>\<close>
  "text_of el = (if textContent el \<noteq> [] then textContent el else or_empty (innerText el))"

definition opt_text :: "node option \<Rightarrow> string" where
  \<comment> \<open>\<^verbatim>\<open>(el?.textContent || el?.innerText || '').trim()\<close>\<close>
  "opt_text el = trim (case el of None \<Rightarrow> [] | Some e \<Rightarrow> text_of e)"

text \<open>
  A page is the document (queried like an element, through its descendants) together with
  the text of its body, which \<^verbatim>\<open>detectBotProtection\<close> reads.
\<close>

record page =
  document :: node
  bodyText :: string

subsection \<open>Selector groups of the parser's configuration\<close>

definition mutualConnectionsLink :: selector where
  \<open>mutualConnectionsLink =
     [''a[href*="facetConnectionOf"]'', ''a[href*="mutual"]'',
      ''a[href*="connections/shared"]'', ''a[href*="keyword=mutual"]'']\<close>

definition connectionName :: selector where
  \<open>connectionName =
     [''span.entity-result__title-text a span[dir="ltr"]'',
      ''.entity-result__title-text a span'',
      ''span.reusable-search__entity-result-list__result-link-text'',
      ''span[aria-hidden="true"][class*="t-14"]'',
      ''span[aria-hidden="true"][class*="t-16"]'']\<close>

definition sel_profileUrl :: selector where
  \<open>sel_profileUrl = [''a.app-aware-link[href*="/in/"]'', ''a[href*="/in/"]'']\<close>

definition profileHeadline :: selector where
  \<open>profileHeadline =
     [''.entity-result__primary-subtitle'', ''.entity-result__summary'',
      ''div.entity-result__primary-subtitle'', ''div[aria-hidden="true"][class*="t-12"]'',
      ''div[data-test-id="hero-title"] ~ div'']\<close>

definition sel_location :: selector where
  \<open>sel_location =
     [''.entity-result__secondary-subtitle'', ''.entity-result__location'',
      ''div.entity-result__secondary-subtitle'', ''span[aria-hidden="true"][class*="t-12"]'',
      ''span.t-black--light'', ''span[data-test-id="hero-location"]'']\<close>

text \<open>
  The configuration object names the key \<^verbatim>\<open>profileImage\<close> twice, first with the group
  for result rows and then with the group for the profile page; the later one is the
  value of \<^verbatim>\<open>this.config.selectors.profileImage\<close>.
\<close>

definition profileImage :: selector where
  \<open>profileImage =
     [''.pv-top-card-profile-picture__image'', ''.pv-member-photo-edit__image'',
      ''img.pv-top-card-profile-picture__image--show'', ''img.profile-photo-edit__preview'',
      ''img[alt*="Profile photo"]'']\<close>

definition connectionBadge :: selector where
  \<open>connectionBadge =
     [''.entity-result__badge-text'', ''.entity-result__badge'',
      ''span[aria-hidden="true"][class*="entity-result__badge"]'']\<close>

definition premiumIndicator :: selector where
  \<open>premiumIndicator = [''li-icon[type="linkedin-bug"]'', ''.premium-icon'']\<close>

definition resultItems :: selector where
  \<open>resultItems =
     [''li.reusable-search__result-container'', ''.entity-result'', ''.search-result'',
      ''li.reusable-search__entity-result-list__item'',
      ''div.reusable-search__entity-result'', ''li.search-reusables__result-container'']\<close>

definition nextPageButton :: selector where
  \<open>nextPageButton =
     [''button[aria-label*="Next"]'', ''.artdeco-pagination__button--next'',
      ''button.artdeco-pagination__button--next'', ''button[aria-label*="Next page"]'']\<close>

definition maxPagesPerSession :: nat where
  "maxPagesPerSession = 50"

definition sessionTimeout :: int where
  "sessionTimeout = 300000"

section \<open>Field extraction and detection (content script)\<close>

definition extractTextContent :: "string list \<Rightarrow> node \<Rightarrow> selector \<Rightarrow> string option" where
  "extractTextContent eng doc selector =
     (case querySelector eng doc selector of
        Inl e \<Rightarrow> None
      | Inr None \<Rightarrow> None
      | Inr (Some element) \<Rightarrow> Some (trim (text_of element)))"

text \<open>
  The field extractor as the specification words it, for comparison with the code: each
  candidate of the list is queried on its own, in order; a candidate that throws or finds
  nothing is passed over; the text of the first element found is returned.
\<close>

fun extractText_spec :: "string list \<Rightarrow> node \<Rightarrow> string list \<Rightarrow> string option" where
  "extractText_spec eng root [] = None"
| "extractText_spec eng root (s # ss) =
     (case querySelector eng root [s] of
        Inr (Some element) \<Rightarrow> Some (trim (text_of element))
      | _ \<Rightarrow> extractText_spec eng root ss)"

subsection \<open>The URL of the shared-connections link\<close>

text \<open>
  The query of a serialised URL is what lies between its first question mark and its
  fragment.  \<^verbatim>\<open>searchParams.get\<close> reads it as \<^verbatim>\<open>application/x-www-form-urlencoded\<close>:
  the query is taken as bytes (UTF-8) and cut at each \<^verbatim>\<open>&\<close>; an empty piece is dropped;
  a piece is cut at its first \<^verbatim>\<open>=\<close> into name and value; in both, \<^verbatim>\<open>+\<close> becomes a
  space and \<^verbatim>\<open>%XX\<close> the byte \<open>XX\<close>; the bytes are decoded as UTF-8, an ill-formed
  sequence giving U+FFFD; the value of the first pair with the name is returned.  The
  decoded name and value are lists of UTF-16 code units, written as integers, since
  decoding can give code units beyond the range of the other strings.
\<close>

definition url_search :: "string \<Rightarrow> string" where
  "url_search h =
     drop 1 (dropWhile (\<lambda>c. c \<noteq> CHR ''?'') (takeWhile (\<lambda>c. c \<noteq> CHR ''#'') h))"

definition utf8_encode :: "string \<Rightarrow> int list" where
  "utf8_encode s =
     concat (map (\<lambda>c. if (of_char c :: int) < 128 then [of_char c]
                        else [192 + (of_char c :: int) div 64, 128 + (of_char c :: int) mod 64]) s)"

fun split_on :: "int \<Rightarrow> int list \<Rightarrow> int list list" where
  "split_on c [] = [[]]"
| "split_on c (x # xs) =
     (if x = c then [] # split_on c xs
      else (case split_on c xs of [] \<Rightarrow> [[x]] | p # ps \<Rightarrow> (x # p) # ps))"

definition hex_val :: "int \<Rightarrow> int option" where
  "hex_val n =
     (if 48 \<le> n \<and> n \<le> 57 then Some (n - 48)
      else if 65 \<le> n \<and> n \<le> 70 then Some (n - 55)
      else if 97 \<le> n \<and> n \<le> 102 then Some (n - 87)
      else None)"

fun percent_decode :: "int list \<Rightarrow> int list" where
  "percent_decode (c # h1 # h2 # cs) =
     (case (c = 37, hex_val h1, hex_val h2) of
        (True, Some a, Some b) \<Rightarrow> (16 * a + b) # percent_decode cs
      | _ \<Rightarrow> c # percent_decode (h1 # h2 # cs))"
| "percent_decode cs = cs"

text \<open>
  The UTF-8 decoder of the Encoding standard: \<open>needed\<close> continuation bytes are still to
  come for the code point \<open>cp\<close>, the next of them within \<open>lo\<close> and \<open>up\<close>.  A byte out
  of these bounds ends the sequence with U+FFFD and is read again as a first byte.
\<close>

fun utf8_decode :: "nat \<Rightarrow> int \<Rightarrow> int \<Rightarrow> int \<Rightarrow> int list \<Rightarrow> int list" where
  "utf8_decode 0 cp lo up [] = []"
| "utf8_decode (Suc n) cp lo up [] = [65533]"
| "utf8_decode 0 cp lo up (b # bs) =
     (if b < 128 then b # utf8_decode 0 0 128 191 bs
      else if 194 \<le> b \<and> b \<le> 223 then utf8_decode 1 (b mod 32) 128 191 bs
      else if 224 \<le> b \<and> b \<le> 239 then
        utf8_decode 2 (b mod 16) (if b = 224 then 160 else 128) (if b = 237 then 159 else 191) bs
      else if 240 \<le> b \<and> b \<le> 244 then
        utf8_decode 3 (b mod 8) (if b = 240 then 144 else 128) (if b = 244 then 143 else 191) bs
      else 65533 # utf8_decode 0 0 128 191 bs)"
| "utf8_decode (Suc n) cp lo up (b # bs) =
     (if b < lo \<or> up < b then 65533 # utf8_decode 0 0 128 191 (b # bs)
      else if n = 0 then (cp * 64 + b mod 64) # utf8_decode 0 0 128 191 bs
      else utf8_decode n (cp * 64 + b mod 64) 128 191 bs)"

definition utf16 :: "int list \<Rightarrow> int list" where
  \<comment> \<open>code points as UTF-16 code units\<close>
  "utf16 cps =
     concat (map (\<lambda>cp. if cp < 65536 then [cp]
                         else [55296 + (cp - 65536) div 1024, 56320 + (cp - 65536) mod 1024]) cps)"

definition form_decode :: "int list \<Rightarrow> int list" where
  "form_decode bs =
     utf16 (utf8_decode 0 0 128 191 (percent_decode (map (\<lambda>b. if b = 43 then 32 else b) bs)))"

definition searchParams :: "string \<Rightarrow> (int list \<times> int list) list" where
  "searchParams query =
     map (\<lambda>p. (form_decode (takeWhile (\<lambda>b. b \<noteq> 61) p),
               form_decode (drop 1 (dropWhile (\<lambda>b. b \<noteq> 61) p))))
         (filter (\<lambda>p. p \<noteq> []) (split_on 38 (utf8_encode query)))"

definition searchParams_get :: "string \<Rightarrow> string \<Rightarrow> int list option" where
  "searchParams_get query k = map_of (searchParams query) (map of_char k)"

subsection \<open>The count in the link's label\<close>

text \<open>
  \<^verbatim>\<open>text.match(/(\d+)\s+(?:other\s+)?mutual\s+connections/i)\<close>: \<open>count_at\<close> matches the
  expression at the head of a string and gives the first group, \<open>count_match\<close> tries the
  positions from left to right.  A run of digits or of white space is taken whole: what
  must follow a run is not in its class, so no shorter run can match; and where
  \<^verbatim>\<open>other\s+\<close> matches, the text opens with \<^verbatim>\<open>o\<close> and \<^verbatim>\<open>mutual\<close> cannot match in
  its place.
\<close>

definition skip_spaces :: "string \<Rightarrow> string option" where
  "skip_spaces s =
     (case s of [] \<Rightarrow> None
      | c # cs \<Rightarrow> if is_space c then Some (dropWhile is_space cs) else None)"

definition skip_word :: "string \<Rightarrow> string \<Rightarrow> string option" where
  "skip_word w s =
     (if map to_lower (take (length w) s) = w then Some (drop (length w) s) else None)"

definition count_at :: "string \<Rightarrow> string option" where
  "count_at s =
     (let ds = takeWhile is_digit s in
      if ds = [] then None
      else
        (case skip_spaces (dropWhile is_digit s) of
           None \<Rightarrow> None
         | Some r \<Rightarrow>
             (let r' = (case skip_word ''other'' r of
                          None \<Rightarrow> r
                        | Some q \<Rightarrow> (case skip_spaces q of None \<Rightarrow> r | Some q' \<Rightarrow> q'))
              in case skip_word ''mutual'' r' of
                   None \<Rightarrow> None
                 | Some m \<Rightarrow>
                     (case skip_spaces m of
                        None \<Rightarrow> None
                      | Some m' \<Rightarrow>
                          (case skip_word ''connections'' m' of
                             None \<Rightarrow> None
                           | Some rest \<Rightarrow> Some ds)))))"

fun count_match :: "string \<Rightarrow> string option" where
  "count_match [] = None"
| "count_match (c # cs) =
     (case count_at (c # cs) of Some ds \<Rightarrow> Some ds | None \<Rightarrow> count_match cs)"

text \<open>
  The numbers that arise from \<^verbatim>\<open>Number.parseInt\<close> on a string of decimal digits and
  from adding 2: doubles that are whole numbers, or \<^verbatim>\<open>Infinity\<close>.  \<open>to_double\<close>
  rounds a whole number that is not negative to the nearest double, a tie going to the
  even significand of 53 bits, and to \<^verbatim>\<open>Infinity\<close> from \<open>2 ^ 1024\<close> on; \<open>width\<close> is
  the number of binary digits.  (Beyond twenty digits the standard lets an engine read
  the further digits as zeros; the rounding here is that of the exact value.)
\<close>

datatype number = Finite int | Infinity

function width :: "int \<Rightarrow> nat" where
  "width n = (if n \<le> 0 then 0 else Suc (width (n div 2)))"
  by pat_completeness auto
termination
  by (relation "measure nat") auto

declare width.simps [simp del]

definition to_double :: "int \<Rightarrow> number" where
  "to_double n =
     (if width n \<le> 53 then Finite n
      else
        (let e = width n - 53;
             q = n div 2 ^ e;
             r = n mod 2 ^ e;
             q' = (if 2 ^ (e - 1) < r \<or> (r = 2 ^ (e - 1) \<and> odd q) then q + 1 else q)
         in if 2 ^ 1024 \<le> q' * 2 ^ e then Infinity else Finite (q' * 2 ^ e)))"

definition parseInt :: "string \<Rightarrow> number" where
  "parseInt ds = to_double (foldl (\<lambda>n c. 10 * n + ((of_char c :: int) - 48)) 0 ds)"

definition plus2 :: "number \<Rightarrow> number" where
  \<comment> \<open>\<^verbatim>\<open>x + 2\<close> in double arithmetic\<close>
  "plus2 x = (case x of Finite n \<Rightarrow> to_double (n + 2) | Infinity \<Rightarrow> Infinity)"

text \<open>
  The object \<^verbatim>\<open>detectMutualConnections\<close> returns; its field \<^verbatim>\<open>text\<close> is \<open>label\<close> here.
\<close>

record detection =
  searchUrl :: string
  encodedId :: "int list"
  totalCount :: "number option"
  label :: string

definition detectMutualConnections :: "string list \<Rightarrow> node \<Rightarrow> detection option" where
  "detectMutualConnections eng doc =
     (case querySelector eng doc mutualConnectionsLink of
        Inl e \<Rightarrow> None
      | Inr None \<Rightarrow> None
      | Inr (Some mutualConnectionsElement) \<Rightarrow>
          (case href mutualConnectionsElement of
             Undefined \<Rightarrow> None
           | Literal h \<Rightarrow> None
           | Resolved h \<Rightarrow>
               if h = [] then None
               else
                 (case searchParams_get (url_search h) ''facetConnectionOf'' of
                    None \<Rightarrow> None
                  | Some eid \<Rightarrow>
                      if eid = [] then None
                      else
                        (let t = textContent mutualConnectionsElement in
                         Some \<lparr>searchUrl = h, encodedId = eid,
                               totalCount = map_option (\<lambda>ds. plus2 (parseInt ds)) (count_match t),
                               label = trim t\<rparr>))))"

section \<open>Result pages and the collection session (content script)\<close>

record connection =
  name :: string
  profileUrl :: string
  headline :: string
  location :: string
  profileImageUrl :: string
  connectionDegree :: string
  isPremium :: bool
  extractedAt :: string

text \<open>The second selector groups, written in place in the source.\<close>

definition nameFallback :: selector where
  \<open>nameFallback = [''.entity-result__title-text a'', ''.search-result__title a'', ''.actor-name'']\<close>

definition profileUrlFallback :: selector where
  \<open>profileUrlFallback = [''a[href*="/in/"]'', ''.entity-result__title-text a'']\<close>

definition headlineFallback :: selector where
  \<open>headlineFallback = [''.entity-result__summary'', ''.search-result__summary'']\<close>

definition locationFallback :: selector where
  \<open>locationFallback = [''.entity-result__location'', ''.search-result__location'']\<close>

definition imageFallback :: selector where
  \<open>imageFallback = [''img[alt*="profile"]'', ''.entity-result__image img'']\<close>

definition badgeFallback :: selector where
  \<open>badgeFallback = [''.entity-result__badge'', ''.search-result__badge'']\<close>

definition premiumFallback :: selector where
  \<open>premiumFallback = [''.premium-icon'', ''[data-test-id*="premium"]'']\<close>

definition alternativeItems :: selector where
  \<open>alternativeItems = [''.entity-result'', ''.search-result__wrapper'']\<close>

definition found :: "'a option \<Rightarrow> bool" where
  \<comment> \<open>\<^verbatim>\<open>!!x\<close> for an element or \<^verbatim>\<open>null\<close>\<close>
  "found x = (case x of None \<Rightarrow> False | Some y \<Rightarrow> True)"

definition query_or ::
  "string list \<Rightarrow> node \<Rightarrow> selector \<Rightarrow> selector \<Rightarrow> js_error + node option" where
  \<comment> \<open>\<^verbatim>\<open>element.querySelector(a) || element.querySelector(b)\<close>\<close>
  "query_or eng element a b =
     (case querySelector eng element a of
        Inl e \<Rightarrow> Inl e
      | Inr (Some n) \<Rightarrow> Inr (Some n)
      | Inr None \<Rightarrow> querySelector eng element b)"

text \<open>
  \<open>stamp\<close> is the value of \<^verbatim>\<open>new Date().toISOString()\<close> when the record is built.
  Every exception inside the function is caught and turned into \<^verbatim>\<open>null\<close>.
\<close>

definition extractConnectionData :: "string list \<Rightarrow> string \<Rightarrow> node \<Rightarrow> connection option" where
  \<open>extractConnectionData eng stamp element =
     (case query_or eng element connectionName nameFallback of
        Inl e \<Rightarrow> None
      | Inr nameElement \<Rightarrow>
     (case query_or eng element sel_profileUrl profileUrlFallback of
        Inl e \<Rightarrow> None
      | Inr profileUrlElement \<Rightarrow>
     (case (nameElement, profileUrlElement) of
        (Some nameEl, Some urlEl) \<Rightarrow>
          (case query_or eng element profileHeadline headlineFallback of
             Inl e \<Rightarrow> None
           | Inr headlineElement \<Rightarrow>
          (case query_or eng element sel_location locationFallback of
             Inl e \<Rightarrow> None
           | Inr locationElement \<Rightarrow>
          (case query_or eng element profileImage imageFallback of
             Inl e \<Rightarrow> None
           | Inr imageElement \<Rightarrow>
          (case query_or eng element connectionBadge badgeFallback of
             Inl e \<Rightarrow> None
           | Inr badgeElement \<Rightarrow>
          (case query_or eng element premiumIndicator premiumFallback of
             Inl e \<Rightarrow> None
           | Inr premiumElement \<Rightarrow>
               (let connection =
                  \<lparr>name = trim (text_of nameEl),
                   profileUrl = href_text (href urlEl),
                   headline = opt_text headlineElement,
                   location = opt_text locationElement,
                   profileImageUrl =
                     (case imageElement of None \<Rightarrow> [] | Some img \<Rightarrow> or_empty (src img)),
                   connectionDegree = opt_text badgeElement,
                   isPremium = found premiumElement,
                   extractedAt = stamp\<rparr>
                in if name connection \<noteq> [] \<and> profileUrl connection \<noteq> []
                   then Some connection else None))))))
      | _ \<Rightarrow> None)))\<close>

definition detectBotProtection :: "string list \<Rightarrow> page \<Rightarrow> js_error + bool" where
  \<open>detectBotProtection eng pg =
     (case querySelector eng (document pg) [''[id*="captcha"]''] of
        Inl e \<Rightarrow> Inl e
      | Inr captcha \<Rightarrow>
     (case querySelector eng (document pg) [''[class*="challenge"]''] of
        Inl e \<Rightarrow> Inl e
      | Inr challenge \<Rightarrow>
     (case querySelector eng (document pg) [''[data-test-id="auth-wall"]''] of
        Inl e \<Rightarrow> Inl e
      | Inr authWall \<Rightarrow>
     (case querySelector eng (document pg) [''.challenge-page''] of
        Inl e \<Rightarrow> Inl e
      | Inr challengePage \<Rightarrow>
     (case querySelector eng (document pg) [''.security-challenge''] of
        Inl e \<Rightarrow> Inl e
      | Inr securityChallenge \<Rightarrow>
          Inr (found captcha \<or> found challenge
               \<or> str_includes (bodyText pg) ''slow down''
               \<or> str_includes (bodyText pg) ''too many requests''
               \<or> str_includes (bodyText pg) ''unusual activity''
               \<or> found authWall \<or> found challengePage \<or> found securityChallenge))))))\<close>

text \<open>
  The loop over the items of a page: \<open>stamps i\<close> is the clock reading for the \<open>i\<close>-th
  item; an item for which \<^verbatim>\<open>extractConnectionData\<close> gives \<^verbatim>\<open>null\<close> is not pushed.
  The awaited random delays change nothing the model records.
\<close>

fun collect :: "string list \<Rightarrow> (nat \<Rightarrow> string) \<Rightarrow> nat \<Rightarrow> node list \<Rightarrow> connection list" where
  "collect eng stamps i [] = []"
| "collect eng stamps i (item # items) =
     (case extractConnectionData eng (stamps i) item of
        None \<Rightarrow> collect eng stamps (Suc i) items
      | Some connection \<Rightarrow> connection # collect eng stamps (Suc i) items)"

definition parseSearchResults ::
  "string list \<Rightarrow> (nat \<Rightarrow> string) \<Rightarrow> page \<Rightarrow> js_error + connection list" where
  "parseSearchResults eng stamps pg =
     (case detectBotProtection eng pg of
        Inl e \<Rightarrow> Inl e
      | Inr True \<Rightarrow> Inl (Error ''Bot protection detected - aborting parsing'')
      | Inr False \<Rightarrow>
          (case querySelectorAll eng (document pg) resultItems of
             Inl e \<Rightarrow> Inl e
           | Inr items \<Rightarrow>
               if items = [] then
                 (case querySelectorAll eng (document pg) alternativeItems of
                    Inl e \<Rightarrow> Inl e
                  | Inr altItems \<Rightarrow>
                      if altItems = [] then Inr []
                      else Inr (collect eng stamps 0 altItems))
               else Inr (collect eng stamps 0 items)))"

definition hasNextPage :: "string list \<Rightarrow> page \<Rightarrow> js_error + bool" where
  "hasNextPage eng pg =
     (case querySelector eng (document pg) nextPageButton of
        Inl e \<Rightarrow> Inl e
      | Inr None \<Rightarrow> Inr False
      | Inr (Some nextButton) \<Rightarrow>
          Inr (\<not> disabled nextButton
               \<and> or_empty (getAttribute nextButton ''aria-disabled'') = []))"

definition navigateToNextPage :: "string list \<Rightarrow> page \<Rightarrow> js_error + unit" where
  "navigateToNextPage eng pg =
     (case querySelector eng (document pg) nextPageButton of
        Inl e \<Rightarrow> Inl e
      | Inr None \<Rightarrow> Inl (Error ''Next page button not found'')
      | Inr (Some nextButton) \<Rightarrow> Inr ())"

subsection \<open>Session state and payloads\<close>

text \<open>
  \<open>profile_data\<close> is the object the background script passes as \<^verbatim>\<open>profileData\<close>; a
  field it leaves \<^verbatim>\<open>undefined\<close> is \<open>None\<close>.  Where objects of the source share a field
  name, the field is written with the record's name in front.
\<close>

record profile_data =
  profileName :: "string option"
  profileUrl :: "string option"
  encodedId :: "string option"
  totalCount :: "nat option"

record session =
  profileData :: profile_data
  startTime :: int
  connections :: "connection list"
  pagesProcessed :: nat

record parser =
  isProcessing :: bool
  currentSession :: "session option"

text \<open>
  What a payload takes from the clock and the random generator when it is built:
  \<^verbatim>\<open>Date.now()\<close>, \<^verbatim>\<open>new Date().toISOString()\<close> and \<^verbatim>\<open>generateSessionId()\<close>.
\<close>

record stamp =
  dateNow :: int
  isoString :: string
  newSessionId :: string

record viewed =
  name :: string
  profileUrl :: string
  encodedId :: string

record metadata =
  timestamp :: string
  sessionId :: string
  version :: string
  source :: string

record aggregate =
  profileViewed :: viewed
  mutualConnections :: "connection list"
  totalCount :: nat
  pagesScraped :: nat
  extractionDuration :: int
  metadata :: metadata

record viewed_connection =
  name :: string
  profileUrl :: string
  linkedinId :: "string option"

record source_profile =
  name :: string
  profileUrl :: string
  linkedinId :: "string option"
  encodedId :: string

record details =
  headline :: string
  location :: string
  profileImageUrl :: string
  connectionDegree :: string
  isPremium :: bool
  extractedAt :: string

record bidi_metadata = metadata +
  relationType :: string

record bidirectional =
  profileViewed :: viewed_connection
  mutualConnectionsWith :: source_profile
  connectionDetails :: details
  metadata :: bidi_metadata

datatype payload = Aggregate aggregate | Bidirectional bidirectional

definition buildWebhookPayload :: "stamp \<Rightarrow> parser \<Rightarrow> js_error + aggregate" where
  "buildWebhookPayload st this =
     (case currentSession this of
        None \<Rightarrow> Inl TypeError
      | Some session \<Rightarrow>
          Inr \<lparr>aggregate.profileViewed =
                 \<lparr>viewed.name = or_empty (profileName (profileData session)),
                  viewed.profileUrl = or_empty (profile_data.profileUrl (profileData session)),
                  viewed.encodedId = or_empty (profile_data.encodedId (profileData session))\<rparr>,
               mutualConnections = connections session,
               aggregate.totalCount = length (connections session),
               pagesScraped = pagesProcessed session,
               extractionDuration = dateNow st - startTime session,
               aggregate.metadata =
                 \<lparr>timestamp = isoString st, sessionId = newSessionId st,
                  version = ''2.0'', source = ''linkedin-mutual-connections''\<rparr>\<rparr>)"

text \<open>
  \<^verbatim>\<open>url.match(/\/in\/([^/?]+)/)\<close>: the first place where \<^verbatim>\<open>/in/\<close> is followed by a
  character other than a slash or a question mark, and the run of such characters there.
\<close>

fun extractLinkedInIdFromUrl :: "string \<Rightarrow> string option" where
  "extractLinkedInIdFromUrl [] = None"
| "extractLinkedInIdFromUrl (c # cs) =
     (let cap = takeWhile (\<lambda>x. x \<noteq> CHR ''/'' \<and> x \<noteq> CHR ''?'') (drop 4 (c # cs)) in
      if take 4 (c # cs) = ''/in/'' \<and> cap \<noteq> [] then Some cap
      else extractLinkedInIdFromUrl cs)"

definition bidirectionalPayload :: "stamp \<Rightarrow> profile_data \<Rightarrow> connection \<Rightarrow> bidirectional" where
  "bidirectionalPayload st sourceProfile connection =
     \<lparr>bidirectional.profileViewed =
        \<lparr>viewed_connection.name = connection.name connection,
         viewed_connection.profileUrl = connection.profileUrl connection,
         viewed_connection.linkedinId =
           extractLinkedInIdFromUrl (connection.profileUrl connection)\<rparr>,
      mutualConnectionsWith =
        \<lparr>source_profile.name = or_empty (profileName sourceProfile),
         source_profile.profileUrl = or_empty (profile_data.profileUrl sourceProfile),
         source_profile.linkedinId =
           extractLinkedInIdFromUrl (or_empty (profile_data.profileUrl sourceProfile)),
         source_profile.encodedId = or_empty (profile_data.encodedId sourceProfile)\<rparr>,
      connectionDetails =
        \<lparr>details.headline = connection.headline connection,
         details.location = connection.location connection,
         details.profileImageUrl = connection.profileImageUrl connection,
         details.connectionDegree = connection.connectionDegree connection,
         details.isPremium = connection.isPremium connection,
         details.extractedAt = connection.extractedAt connection\<rparr>,
      bidirectional.metadata =
        \<lparr>timestamp = isoString st, sessionId = newSessionId st,
         version = ''2.0'', source = ''linkedin-bidirectional-connection'',
         relationType = ''mutual_connection''\<rparr>\<rparr>"

text \<open>
  \<open>st\<close> stamps the main payload and \<open>sts i\<close> the payload of the \<open>i\<close>-th connection.
\<close>

definition buildBidirectionalPayloads ::
  "stamp \<Rightarrow> (nat \<Rightarrow> stamp) \<Rightarrow> parser \<Rightarrow> js_error + payload list" where
  "buildBidirectionalPayloads st sts this =
     (case currentSession this of
        None \<Rightarrow> Inl TypeError
      | Some session \<Rightarrow>
          (case buildWebhookPayload st this of
             Inl e \<Rightarrow> Inl e
           | Inr mainPayload \<Rightarrow>
               Inr (Aggregate mainPayload #
                    map (\<lambda>i. Bidirectional
                               (bidirectionalPayload (sts i) (profileData session)
                                  (connections session ! i)))
                        [0 ..< length (connections session)])))"

subsection \<open>The session loop\<close>

text \<open>
  The pages are an environment: \<open>visits n\<close> is what the \<open>n\<close>-th iteration of the loop
  meets, namely the reading of \<^verbatim>\<open>Date.now()\<close> at its time-out check, the page shown
  (taken to stay the same during the iteration) and the clock readings for its items.
  \<open>pages\<close> is the \<^verbatim>\<open>while\<close> loop of \<^verbatim>\<open>parseAllMutualConnections\<close>, run on the
  session record while the processing flag is set; it returns the error thrown, if any,
  and the session record as the loop leaves it.
\<close>

record visit =
  clock :: int
  shown :: page
  stamps :: "nat \<Rightarrow> string"

record environment =
  started :: int
  visits :: "nat \<Rightarrow> visit"
  finish :: stamp

function pages ::
  "string list \<Rightarrow> (nat \<Rightarrow> visit) \<Rightarrow> nat \<Rightarrow> session \<Rightarrow> js_error option \<times> session" where
  "pages eng vs currentPage s =
     (if currentPage \<le> maxPagesPerSession then
        if clock (vs currentPage) - startTime s > sessionTimeout then
          (Some (Error ''Session timeout exceeded''), s)
        else
          (case parseSearchResults eng (stamps (vs currentPage)) (shown (vs currentPage)) of
             Inl e \<Rightarrow> (Some e, s)
           | Inr pageConnections \<Rightarrow>
               (case hasNextPage eng (shown (vs currentPage)) of
                  Inl e \<Rightarrow>
                    (Some e, s\<lparr>connections := connections s @ pageConnections,
                               pagesProcessed := pagesProcessed s + 1\<rparr>)
                | Inr False \<Rightarrow>
                    (None, s\<lparr>connections := connections s @ pageConnections,
                             pagesProcessed := pagesProcessed s + 1\<rparr>)
                | Inr True \<Rightarrow>
                    (case navigateToNextPage eng (shown (vs currentPage)) of
                       Inl e \<Rightarrow>
                         (Some e, s\<lparr>connections := connections s @ pageConnections,
                                    pagesProcessed := pagesProcessed s + 1\<rparr>)
                     | Inr u \<Rightarrow>
                         pages eng vs (Suc currentPage)
                           (s\<lparr>connections := connections s @ pageConnections,
                              pagesProcessed := pagesProcessed s + 1\<rparr>))))
      else (None, s))"
  by pat_completeness auto
termination
  by (relation "measure (\<lambda>(eng, vs, currentPage, s). Suc maxPagesPerSession - currentPage)")
     auto

declare pages.simps [simp del]

definition parseAllMutualConnections ::
  "string list \<Rightarrow> environment \<Rightarrow> parser \<Rightarrow> profile_data \<Rightarrow> (js_error + aggregate) \<times> parser" where
  "parseAllMutualConnections eng env this pd =
     (if isProcessing this then (Inl (Error ''Parsing already in progress''), this)
      else
        (case pages eng (visits env) 1
                \<lparr>profileData = pd, startTime = started env, connections = [],
                 pagesProcessed = 0\<rparr> of
           (Some e, s) \<Rightarrow> (Inl e, \<lparr>isProcessing = False, currentSession = Some s\<rparr>)
         | (None, s) \<Rightarrow>
             (case buildWebhookPayload (finish env)
                     \<lparr>isProcessing = True, currentSession = Some s\<rparr> of
                Inl e \<Rightarrow> (Inl e, \<lparr>isProcessing = False, currentSession = Some s\<rparr>)
              | Inr p \<Rightarrow> (Inr p, \<lparr>isProcessing = False, currentSession = Some s\<rparr>))))"

subsection \<open>The session between its awaits\<close>

text \<open>
  \<^verbatim>\<open>parseAllMutualConnections\<close> is an \<^verbatim>\<open>async\<close> function: a call runs up to its first
  \<^verbatim>\<open>await\<close> and gives the control back, and each later turn of the event loop takes it
  from one \<^verbatim>\<open>await\<close> to the next.  In between, other calls may reach the same parser.
  A session is suspended either in \<^verbatim>\<open>await this.parseSearchResults()\<close> or in the two
  \<^verbatim>\<open>await\<close>s that turn the page (the delay and \<^verbatim>\<open>navigateToNextPage\<close>); the
  \<^verbatim>\<open>await\<close>s inside these calls touch no field of the parser, so each is one point of
  suspension here.  The local variable \<^verbatim>\<open>currentPage\<close> lives in the point; the fields
  \<^verbatim>\<open>isProcessing\<close> and \<^verbatim>\<open>currentSession\<close> are read from the parser and written to
  it whenever the source does so, and reading a field of \<^verbatim>\<open>currentSession\<close> while it
  is \<^verbatim>\<open>null\<close> throws \<^verbatim>\<open>TypeError\<close>.  The promise of a call is pending
  (\<open>Suspended\<close>) or settled, with the payload or with the error thrown.
\<close>

datatype point = Parsing nat | Turning nat

datatype status = Suspended point | Settled "js_error + aggregate"

definition leave :: "js_error + aggregate \<Rightarrow> parser \<Rightarrow> status \<times> parser" where
  \<comment> \<open>out of the \<^verbatim>\<open>try\<close> block through \<^verbatim>\<open>finally { this.isProcessing = false }\<close>\<close>
  "leave r this = (Settled r, this\<lparr>isProcessing := False\<rparr>)"

definition conclude :: "environment \<Rightarrow> parser \<Rightarrow> status \<times> parser" where
  \<comment> \<open>\<^verbatim>\<open>return this.buildWebhookPayload()\<close>\<close>
  "conclude env this = leave (buildWebhookPayload (finish env) this) this"

definition loop_head :: "environment \<Rightarrow> nat \<Rightarrow> parser \<Rightarrow> status \<times> parser" where
  \<comment> \<open>from the test of the \<^verbatim>\<open>while\<close> loop to the call of \<^verbatim>\<open>parseSearchResults\<close>\<close>
  "loop_head env currentPage this =
     (if currentPage \<le> maxPagesPerSession then
        (case currentSession this of
           None \<Rightarrow> leave (Inl TypeError) this
         | Some s \<Rightarrow>
             if clock (visits env currentPage) - startTime s > sessionTimeout
             then leave (Inl (Error ''Session timeout exceeded'')) this
             else (Suspended (Parsing currentPage), this))
      else conclude env this)"

definition refused :: status where
  "refused = Settled (Inl (Error ''Parsing already in progress''))"

definition parseAll_call :: "environment \<Rightarrow> parser \<Rightarrow> profile_data \<Rightarrow> status \<times> parser" where
  \<comment> \<open>a call of \<^verbatim>\<open>parseAllMutualConnections(profileData)\<close>, up to its first \<^verbatim>\<open>await\<close>\<close>
  "parseAll_call env this pd =
     (if isProcessing this then (refused, this)
      else
        loop_head env 1
          (this\<lparr>isProcessing := True,
                currentSession :=
                  Some \<lparr>profileData = pd, startTime = started env, connections = [],
                        pagesProcessed = 0\<rparr>\<rparr>))"

fun resume :: "string list \<Rightarrow> environment \<Rightarrow> point \<Rightarrow> parser \<Rightarrow> status \<times> parser" where
  "resume eng env (Parsing currentPage) this =
     (case parseSearchResults eng (stamps (visits env currentPage))
             (shown (visits env currentPage)) of
        Inl e \<Rightarrow> leave (Inl e) this
      | Inr pageConnections \<Rightarrow>
          (case currentSession this of
             None \<Rightarrow> leave (Inl TypeError) this
           | Some s \<Rightarrow>
               (case hasNextPage eng (shown (visits env currentPage)) of
                  Inl e \<Rightarrow>
                    leave (Inl e)
                      (this\<lparr>currentSession :=
                              Some (s\<lparr>connections := connections s @ pageConnections,
                                      pagesProcessed := pagesProcessed s + 1\<rparr>)\<rparr>)
                | Inr False \<Rightarrow>
                    conclude env
                      (this\<lparr>currentSession :=
                              Some (s\<lparr>connections := connections s @ pageConnections,
                                      pagesProcessed := pagesProcessed s + 1\<rparr>)\<rparr>)
                | Inr True \<Rightarrow>
                    (Suspended (Turning currentPage),
                     this\<lparr>currentSession :=
                            Some (s\<lparr>connections := connections s @ pageConnections,
                                    pagesProcessed := pagesProcessed s + 1\<rparr>)\<rparr>))))"
| "resume eng env (Turning currentPage) this =
     (case navigateToNextPage eng (shown (visits env currentPage)) of
        Inl e \<Rightarrow> leave (Inl e) this
      | Inr u \<Rightarrow> loop_head env (Suc currentPage) this)"

text \<open>
  Calls of \<^verbatim>\<open>parseAllMutualConnections\<close> that arrive, one after the other, while a
  session is suspended: each runs up to its first \<^verbatim>\<open>await\<close> on the parser as the
  one before left it.  The result lists the promises they return.
\<close>

fun intrude :: "(environment \<times> profile_data) list \<Rightarrow> parser \<Rightarrow> status list \<times> parser" where
  "intrude [] this = ([], this)"
| "intrude ((env, pd) # calls) this =
     (case parseAll_call env this pd of
        (r, this') \<Rightarrow>
          (case intrude calls this' of (rs, this'') \<Rightarrow> (r # rs, this'')))"

text \<open>
  A session run to its end among other calls: \<open>others n\<close> are the calls that arrive
  while the session is suspended for the \<open>n\<close>-th time.  The run returns, for each
  suspension, the parser as the session left it, the promises of the calls that arrived
  and the parser as the session finds it again; and the way the session's own promise
  settles, with the parser at that moment.
\<close>

type_synonym moment = "parser \<times> status list \<times> parser"

function session_run ::
  "string list \<Rightarrow> environment \<Rightarrow> (nat \<Rightarrow> (environment \<times> profile_data) list) \<Rightarrow> nat
     \<Rightarrow> status \<times> parser \<Rightarrow> moment list \<times> (js_error + aggregate) \<times> parser" where
  "session_run eng env others n (Settled r, this) = ([], r, this)"
| "session_run eng env others n (Suspended p, this) =
     (case intrude (others n) this of
        (rs, this') \<Rightarrow>
          (case session_run eng env others (Suc n) (resume eng env p this') of
             (ms, fin) \<Rightarrow> ((this, rs, this') # ms, fin)))"
  by pat_completeness auto
termination
proof (relation "measure (\<lambda>(eng, env, others, n, st, this).
                   case st of
                     Settled r \<Rightarrow> 0
                   | Suspended (Parsing k) \<Rightarrow> 2 * (Suc maxPagesPerSession - k) + 2
                   | Suspended (Turning k) \<Rightarrow> 2 * (Suc maxPagesPerSession - k) + 1)")
  show "wf (measure (\<lambda>(eng, env, others, n, st, this).
                   case st of
                     Settled r \<Rightarrow> 0
                   | Suspended (Parsing k) \<Rightarrow> 2 * (Suc maxPagesPerSession - k) + 2
                   | Suspended (Turning k) \<Rightarrow> 2 * (Suc maxPagesPerSession - k) + 1))"
    by simp
next
  fix eng :: "string list" and env :: environment
    and others :: "nat \<Rightarrow> (environment \<times> profile_data) list"
    and n :: nat and p :: point and this this' :: parser and x :: "status list \<times> parser"
    and rs :: "status list"
  show "((eng, env, others, Suc n, resume eng env p this'), eng, env, others, n, Suspended p, this)
          \<in> measure (\<lambda>(eng, env, others, n, st, this).
                   case st of
                     Settled r \<Rightarrow> 0
                   | Suspended (Parsing k) \<Rightarrow> 2 * (Suc maxPagesPerSession - k) + 2
                   | Suspended (Turning k) \<Rightarrow> 2 * (Suc maxPagesPerSession - k) + 1)"
    by (cases p)
       (auto simp: leave_def conclude_def loop_head_def
             split: sum.splits option.splits bool.splits)
qed

definition parseAll_among ::
  "string list \<Rightarrow> environment \<Rightarrow> (nat \<Rightarrow> (environment \<times> profile_data) list) \<Rightarrow> parser
     \<Rightarrow> profile_data \<Rightarrow> moment list \<times> (js_error + aggregate) \<times> parser" where
  "parseAll_among eng env others this pd =
     session_run eng env others 0 (parseAll_call env this pd)"

section \<open>Webhook delivery with retry (background script)\<close>

text \<open>
  \<^verbatim>\<open>postToWebhookDirect(webhookUrl, payload, retryCount = 3, webhookName = 'Webhook')\<close>
  issues one \<^verbatim>\<open>fetch\<close> and, from the promise callbacks, either re-arms itself through
  \<^verbatim>\<open>setTimeout\<close> or raises one notification.  The network is an environment: the
  function \<open>net\<close> gives the outcome of the \<open>k\<close>-th fetch of a delivery (counted from 0),
  either a response with its HTTP status or a rejected promise with the error's message.
  The run of a delivery is the list of its effects in the order they happen.
\<close>

datatype fetch_result = Response nat | Rejected string

definition ok :: "nat \<Rightarrow> bool" where
  \<comment> \<open>\<^verbatim>\<open>response.ok\<close> of the Fetch API: the status is in the range 200 to 299.\<close>
  "ok status = (200 \<le> status \<and> status \<le> 299)"

datatype 'p effect =
    Fetch string 'p
  | SetTimeout nat
  | ShowNotification string string bool

text \<open>
  \<open>ShowNotification title message isSuccess\<close> is the call of \<^verbatim>\<open>showNotification\<close>;
  the pictograph that opens each title in the source is left out of \<open>title\<close>.
\<close>

fun postToWebhookDirect ::
  "(nat \<Rightarrow> fetch_result) \<Rightarrow> nat \<Rightarrow> string \<Rightarrow> 'p \<Rightarrow> nat \<Rightarrow> string \<Rightarrow> 'p effect list" where
  "postToWebhookDirect net k webhookUrl payload retryCount webhookName =
     Fetch webhookUrl payload #
     (case net k of
        Response status \<Rightarrow>
          if \<not> ok status \<and> retryCount > 0 then
            SetTimeout 1000 #
              postToWebhookDirect net (Suc k) webhookUrl payload (retryCount - 1) webhookName
          else if ok status then
            [ShowNotification (webhookName @ '' - Success'')
               (''Data sent successfully to '' @ webhookName) True]
          else
            [ShowNotification (webhookName @ '' - Failed'')
               ''Failed to send data after 3 attempts'' False]
      | Rejected msg \<Rightarrow>
          if retryCount > 0 then
            SetTimeout 2000 #
              postToWebhookDirect net (Suc k) webhookUrl payload (retryCount - 1) webhookName
          else
            [ShowNotification (webhookName @ '' - Error'') (''Network error: '' @ msg) False])"

declare postToWebhookDirect.simps [simp del]

fun is_fetch :: "'p effect \<Rightarrow> bool" where
  "is_fetch (Fetch u p) = True"
| "is_fetch e = False"

definition attempts :: "'p effect list \<Rightarrow> nat" where
  "attempts es = length (filter is_fetch es)"

definition failed :: "fetch_result \<Rightarrow> bool" where
  \<comment> \<open>a response that is not ok, or a rejected fetch\<close>
  "failed r = (case r of Response status \<Rightarrow> \<not> ok status | Rejected msg \<Rightarrow> True)"

section \<open>Per-endpoint queues (background script)\<close>

text \<open>
  \<^verbatim>\<open>webhookQueues\<close> maps a webhook URL to its queue data.  The background record adds
  what the event loop holds for the queues: the pending \<^verbatim>\<open>setTimeout\<close> callbacks (handle,
  URL handed to \<^verbatim>\<open>processQueue\<close>, time due), the next handle, the calls of
  \<^verbatim>\<open>postToWebhookDirect(webhookUrl, item.payload, 3, item.webhookName)\<close> made so far, each
  with the reading of \<^verbatim>\<open>Date.now()\<close> stored in \<^verbatim>\<open>lastSent\<close>, and the calls of
  \<^verbatim>\<open>showQueueNotification\<close>.  Times are in milliseconds, rate limits in seconds.
  Within one call the readings of \<^verbatim>\<open>Date.now()\<close> are taken to be the same.
\<close>

record 'p item =
  payload :: 'p
  webhookName :: string
  timestamp :: int

record 'p queueData =
  queue :: "'p item list"
  lastSent :: int
  timer :: "nat option"
  rateLimit :: int

record 'p background =
  webhookQueues :: "string \<rightharpoonup> 'p queueData"
  timeouts :: "(nat \<times> string \<times> int) list"
  nextHandle :: nat
  posted :: "(string \<times> 'p item \<times> int) list"
  queueNotices :: "(string \<times> string) list"

definition clearTimeout :: "nat \<Rightarrow> 'p background \<Rightarrow> 'p background" where
  "clearTimeout h w = w\<lparr>timeouts := filter (\<lambda>t. fst t \<noteq> h) (timeouts w)\<rparr>"

definition arm :: "string \<Rightarrow> 'p queueData \<Rightarrow> int \<Rightarrow> 'p background \<Rightarrow> 'p background" where
  \<comment> \<open>\<^verbatim>\<open>queueData.timer = setTimeout(() => processQueue(webhookUrl), delay)\<close>, at time
      \<open>due - delay\<close>, with the other fields of the queue data as given\<close>
  "arm webhookUrl qd due w =
     w\<lparr>webhookQueues := (webhookQueues w)(webhookUrl \<mapsto> qd\<lparr>timer := Some (nextHandle w)\<rparr>),
       timeouts := timeouts w @ [(nextHandle w, webhookUrl, due)],
       nextHandle := Suc (nextHandle w)\<rparr>"

definition pending :: "string \<Rightarrow> 'p background \<Rightarrow> nat" where
  "pending webhookUrl w =
     (case webhookQueues w webhookUrl of None \<Rightarrow> 0 | Some qd \<Rightarrow> length (queue qd))"

function processQueue :: "int \<Rightarrow> string \<Rightarrow> 'p background \<Rightarrow> 'p background" where
  "processQueue now webhookUrl w =
     (case webhookQueues w webhookUrl of
        None \<Rightarrow> w
      | Some queueData \<Rightarrow>
          (case queue queueData of
             [] \<Rightarrow> w
           | item # rest \<Rightarrow>
               if rateLimit queueData > 0 \<and> now - lastSent queueData < rateLimit queueData * 1000
               then
                 arm webhookUrl queueData
                   (now + (rateLimit queueData * 1000 - (now - lastSent queueData)))
                   (case timer queueData of None \<Rightarrow> w | Some h \<Rightarrow> clearTimeout h w)
               else if rest = [] then
                 w\<lparr>webhookQueues :=
                     (webhookQueues w)(webhookUrl \<mapsto> queueData\<lparr>queue := rest, lastSent := now\<rparr>),
                   posted := posted w @ [(webhookUrl, item, now)]\<rparr>
               else if rateLimit queueData > 0 then
                 arm webhookUrl (queueData\<lparr>queue := rest, lastSent := now\<rparr>)
                   (now + rateLimit queueData * 1000)
                   (w\<lparr>posted := posted w @ [(webhookUrl, item, now)]\<rparr>)
               else
                 processQueue now webhookUrl
                   (w\<lparr>webhookQueues :=
                        (webhookQueues w)
                          (webhookUrl \<mapsto> queueData\<lparr>queue := rest, lastSent := now\<rparr>),
                      posted := posted w @ [(webhookUrl, item, now)]\<rparr>)))"
  by pat_completeness auto
termination
  by (relation "measure (\<lambda>(now, webhookUrl, w). pending webhookUrl w)")
     (auto simp: pending_def)

declare processQueue.simps [simp del]

definition addToQueue ::
  "int \<Rightarrow> string \<Rightarrow> 'p \<Rightarrow> string \<Rightarrow> int \<Rightarrow> 'p background \<Rightarrow> 'p background" where
  "addToQueue now webhookUrl pl nm rl w =
     (let queueData =
            (case webhookQueues w webhookUrl of
               None \<Rightarrow> \<lparr>queue = [], lastSent = 0, timer = None, rateLimit = rl\<rparr>
             | Some qd \<Rightarrow> qd);
          pushed =
            queueData\<lparr>rateLimit := rl,
                      queue := queue queueData
                                 @ [\<lparr>payload = pl, webhookName = nm, timestamp = now\<rparr>]\<rparr>;
          willBeQueued =
            (rl > 0 \<and> (length (queue pushed) > 1 \<or> now - lastSent pushed < rl * 1000))
      in processQueue now webhookUrl
           (w\<lparr>webhookQueues := (webhookQueues w)(webhookUrl \<mapsto> pushed),
              queueNotices :=
                (if willBeQueued then queueNotices w @ [(webhookUrl, nm)]
                 else queueNotices w)\<rparr>))"

text \<open>
  \<^verbatim>\<open>initializeQueues\<close>, run at start-up and whenever the stored webhooks change: a
  webhook without a queue gets an empty one, a webhook with a queue gets its rate limit
  renewed; a stored rate limit that is missing counts as 0.
\<close>

fun initializeQueues :: "(string \<times> int option) list \<Rightarrow> 'p background \<Rightarrow> 'p background" where
  "initializeQueues [] w = w"
| "initializeQueues ((url, rl) # webhooks) w =
     initializeQueues webhooks
       (w\<lparr>webhookQueues :=
            (webhookQueues w)
              (url \<mapsto>
                 (case webhookQueues w url of
                    None \<Rightarrow> \<lparr>queue = [], lastSent = 0, timer = None,
                             rateLimit = (case rl of None \<Rightarrow> 0 | Some r \<Rightarrow> r)\<rparr>
                  | Some qd \<Rightarrow> qd\<lparr>rateLimit := (case rl of None \<Rightarrow> 0 | Some r \<Rightarrow> r)\<rparr>))\<rparr>)"

text \<open>
  The events that reach the queues, each with the reading of the clock when it is handled:
  a call of \<^verbatim>\<open>addToQueue\<close>, a change of the stored webhooks, and the firing of a timer.
  A timer that is no longer pending does nothing.  Nothing is assumed about the times:
  a timer may fire late, and the properties below do not even need it not to fire early.
\<close>

datatype 'p event =
    AddToQueue string 'p string int
  | WebhooksChanged "(string \<times> int option) list"
  | TimerFires nat

fun step :: "int \<times> 'p event \<Rightarrow> 'p background \<Rightarrow> 'p background" where
  "step (now, AddToQueue webhookUrl pl nm rl) w = addToQueue now webhookUrl pl nm rl w"
| "step (now, WebhooksChanged webhooks) w = initializeQueues webhooks w"
| "step (now, TimerFires h) w =
     (case find (\<lambda>t. fst t = h) (timeouts w) of
        None \<Rightarrow> w
      | Some (h', webhookUrl, due) \<Rightarrow> processQueue now webhookUrl (clearTimeout h w))"

definition run :: "(int \<times> 'p event) list \<Rightarrow> 'p background \<Rightarrow> 'p background" where
  "run evs w = fold step evs w"

definition start :: "'p background" where
  "start = \<lparr>webhookQueues = Map.empty, timeouts = [], nextHandle = 1, posted = [],
            queueNotices = []\<rparr>"

text \<open>
  What was sent to an endpoint, with the times, in the order of sending; what was handed
  to \<^verbatim>\<open>addToQueue\<close> for it, in the order of the calls; and the spacing of a list of times.
\<close>

definition sent_to :: "string \<Rightarrow> 'p background \<Rightarrow> ('p item \<times> int) list" where
  "sent_to u w = map snd (filter (\<lambda>e. fst e = u) (posted w))"

fun enqueued :: "string \<Rightarrow> (int \<times> 'p event) list \<Rightarrow> 'p item list" where
  "enqueued u [] = []"
| "enqueued u ((now, AddToQueue webhookUrl pl nm rl) # evs) =
     (if webhookUrl = u
      then \<lparr>payload = pl, webhookName = nm, timestamp = now\<rparr> # enqueued u evs
      else enqueued u evs)"
| "enqueued u (ev # evs) = enqueued u evs"

fun spaced :: "int \<Rightarrow> int list \<Rightarrow> bool" where
  "spaced d (a # b # ts) = (d \<le> b - a \<and> spaced d (b # ts))"
| "spaced d ts = True"

fun configured :: "string \<Rightarrow> int \<Rightarrow> int \<times> 'p event \<Rightarrow> bool" where
  \<comment> \<open>the event leaves the rate limit of endpoint \<open>u\<close> at \<open>i\<close> seconds\<close>
  "configured u i (now, AddToQueue webhookUrl pl nm rl) = (webhookUrl = u \<longrightarrow> rl = i)"
| "configured u i (now, WebhooksChanged webhooks) =
     list_all (\<lambda>wh. fst wh = u \<longrightarrow> snd wh = Some i) webhooks"
| "configured u i (now, TimerFires h) = True"

definition waiting :: "string \<Rightarrow> 'p background \<Rightarrow> 'p item list" where
  \<comment> \<open>the queue of an endpoint, empty when it has none yet\<close>
  "waiting u w = (case webhookQueues w u of None \<Rightarrow> [] | Some qd \<Rightarrow> queue qd)"

text \<open>
  The invariant of one endpoint \<open>u\<close> whose rate limit is \<open>i\<close>, against the entries
  \<open>es\<close> enqueued for it so far: what was sent, followed by what waits, is \<open>es\<close>; the
  sends are spaced; while entries wait the rate limit in force is \<open>i\<close>; and \<open>lastSent\<close>
  is the time of the latest send.
\<close>

definition fifo_inv :: "int \<Rightarrow> string \<Rightarrow> 'p item list \<Rightarrow> 'p background \<Rightarrow> bool" where
  "fifo_inv i u es w =
     (spaced (i * 1000) (map snd (sent_to u w))
      \<and> (case webhookQueues w u of
            None \<Rightarrow> sent_to u w = [] \<and> es = []
          | Some qd \<Rightarrow>
              map fst (sent_to u w) @ queue qd = es
              \<and> (queue qd = [] \<or> rateLimit qd = i)
              \<and> (sent_to u w = [] \<or> lastSent qd = snd (last (sent_to u w)))))"

text \<open>
  The timer an endpoint can count on: \<open>alarm u w\<close> is the handle in the \<^verbatim>\<open>timer\<close>
  field of its queue data, if that timer is still pending, with the time it is due.
\<close>

definition alarm :: "string \<Rightarrow> 'p background \<Rightarrow> (nat \<times> int) option" where
  "alarm u w =
     (case webhookQueues w u of
        None \<Rightarrow> None
      | Some qd \<Rightarrow>
          (case timer qd of
             None \<Rightarrow> None
           | Some h \<Rightarrow>
               (case find (\<lambda>t. fst t = h) (timeouts w) of
                  None \<Rightarrow> None
                | Some (h', webhookUrl, due) \<Rightarrow> Some (h, due))))"

text \<open>
  Two more invariants, for the timers.  The handles are used once: the pending ones
  differ from each other, the pending and the stored ones are below the next handle, and
  no other endpoint stores the handle that \<open>u\<close> stores.  And \<open>u\<close> is armed: while
  entries wait in its queue, the timer it stores is pending, for \<open>u\<close>, and due one
  interval after \<open>lastSent\<close>.
\<close>

definition handles_inv :: "string \<Rightarrow> 'p background \<Rightarrow> bool" where
  "handles_inv u w =
     (distinct (map fst (timeouts w))
      \<and> (\<forall>t \<in> set (timeouts w). fst t < nextHandle w)
      \<and> (\<forall>v qd h. webhookQueues w v = Some qd \<and> timer qd = Some h \<longrightarrow> h < nextHandle w)
      \<and> (\<forall>v qd qd' h. v \<noteq> u \<and> webhookQueues w v = Some qd \<and> timer qd = Some h
             \<and> webhookQueues w u = Some qd' \<longrightarrow> timer qd' \<noteq> Some h))"

definition armed :: "int \<Rightarrow> string \<Rightarrow> 'p background \<Rightarrow> bool" where
  "armed i u w =
     (case webhookQueues w u of
        None \<Rightarrow> True
      | Some qd \<Rightarrow>
          queue qd = []
          \<or> (\<exists>h. timer qd = Some h \<and> (h, u, lastSent qd + i * 1000) \<in> set (timeouts w)))"

section \<open>Sample pages and sessions\<close>

text \<open>
  Small inputs on which the definitions are run further down: a profile page with a
  shared-connections link, a document with one heading, result rows, result pages with
  and without a button for the next page, and the sessions made of them.
\<close>

definition element :: "string list \<Rightarrow> string \<Rightarrow> href_value \<Rightarrow> node list \<Rightarrow> node" where
  "element sa tc hr ks = Node sa tc None hr None False [] ks"

definition shared_link :: string where
  \<open>shared_link =
     ''https://www.linkedin.com/search/results/people/?facetConnectionOf=%22ABC%22&origin=MEMBER_PROFILE_CANNED_SEARCH''\<close>

definition link_element :: node where
  \<open>link_element =
     element [''a[href*="facetConnectionOf"]''] ''5 other mutual connections''
       (Resolved shared_link) []\<close>

definition profile_doc :: node where
  "profile_doc = element [] [] Undefined [link_element]"

definition heading_doc :: node where
  "heading_doc = element [] [] Undefined [element [''h1''] ''  Ada Lovelace '' Undefined []]"

definition name_span :: "string \<Rightarrow> node" where
  "name_span t = element [''.entity-result__title-text a span''] t Undefined []"

definition profile_link :: "string \<Rightarrow> node" where
  \<open>profile_link h = element [''a[href*="/in/"]''] [] (Resolved h) []\<close>

definition row_ada :: node where
  "row_ada =
     element [''.entity-result''] [] Undefined
       [name_span ''  Ada Lovelace '', profile_link ''https://www.linkedin.com/in/ada/'']"

definition row_no_name :: node where
  "row_no_name =
     element [''.entity-result''] [] Undefined [profile_link ''https://www.linkedin.com/in/bob/'']"

definition row_blank_name :: node where
  "row_blank_name =
     element [''.entity-result''] [] Undefined
       [name_span ''   '', profile_link ''https://www.linkedin.com/in/eve/'']"


definition ada :: connection where
  "ada =
     \<lparr>connection.name = ''Ada Lovelace'',
      connection.profileUrl = ''https://www.linkedin.com/in/ada/'',
      connection.headline = [], connection.location = [],
      connection.profileImageUrl = [], connection.connectionDegree = [],
      connection.isPremium = False, connection.extractedAt = ''T''\<rparr>"

definition next_button :: node where
  "next_button = element [''.artdeco-pagination__button--next''] ''Next'' Undefined []"

definition last_page :: page where
  "last_page =
     \<lparr>document = element [] [] Undefined [row_ada, row_no_name, row_blank_name], bodyText = []\<rparr>"

definition inner_page :: page where
  "inner_page = \<lparr>document = element [] [] Undefined [row_ada, next_button], bodyText = []\<rparr>"

definition source_profile_data :: profile_data where
  \<open>source_profile_data =
     \<lparr>profileName = Some ''Alan Turing'',
      profile_data.profileUrl = Some ''https://www.linkedin.com/in/alan/'',
      profile_data.encodedId = Some ''ACoAAA'',
      profile_data.totalCount = Some 7\<rparr>\<close>

definition at_finish :: stamp where
  "at_finish = \<lparr>dateNow = 9000, isoString = ''T9'', newSessionId = ''9000-abc''\<rparr>"

definition one_page_env :: environment where
  "one_page_env =
     \<lparr>started = 1000,
      visits = (\<lambda>n. \<lparr>clock = 2000, shown = last_page, stamps = (\<lambda>i. ''T'')\<rparr>),
      finish = at_finish\<rparr>"

definition slow_env :: environment where
  "slow_env =
     \<lparr>started = 1000,
      visits = (\<lambda>n. \<lparr>clock = (if n = 1 then 2000 else 301001), shown = inner_page,
                      stamps = (\<lambda>i. ''T'')\<rparr>),
      finish = at_finish\<rparr>"

definition idle :: parser where
  "idle = \<lparr>isProcessing = False, currentSession = None\<rparr>"

definition running :: "session \<Rightarrow> parser" where
  "running s = \<lparr>isProcessing = True, currentSession = Some s\<rparr>"

definition first_page_done :: session where
  "first_page_done =
     \<lparr>profileData = source_profile_data, startTime = 1000, connections = [ada],
      pagesProcessed = 1\<rparr>"

definition callers :: "nat \<Rightarrow> (environment \<times> profile_data) list" where
  \<comment> \<open>one further call at each suspension of a session\<close>
  "callers n = [(one_page_env, source_profile_data)]"

definition old_engine :: "string list" where
  \<open>old_engine = [''span:contains("connection")'']\<close>

definition heading_selector :: selector where
  \<open>heading_selector = [''span:contains("connection")'', ''h1'']\<close>

definition valid_records :: "connection list \<Rightarrow> bool" where
  "valid_records cs =
     list_all (\<lambda>c. connection.name c \<noteq> [] \<and> connection.profileUrl c \<noteq> []) cs"

definition one_page_payload :: aggregate where
  "one_page_payload =
     \<lparr>aggregate.profileViewed =
        \<lparr>viewed.name = ''Alan Turing'',
         viewed.profileUrl = ''https://www.linkedin.com/in/alan/'',
         viewed.encodedId = ''ACoAAA''\<rparr>,
      mutualConnections = [ada],
      aggregate.totalCount = 1, pagesScraped = 1, extractionDuration = 8000,
      aggregate.metadata =
        \<lparr>metadata.timestamp = ''T9'', sessionId = ''9000-abc'', version = ''2.0'',
         source = ''linkedin-mutual-connections''\<rparr>\<rparr>"

definition bob :: connection where
  "bob =
     ada\<lparr>connection.name := ''Bob Kahn'',
         connection.profileUrl := ''https://www.linkedin.com/in/bob?trk=x''\<rparr>"

definition two_records :: session where
  "two_records = first_page_done\<lparr>connections := [ada, bob]\<rparr>"

definition fresh_session :: "environment \<Rightarrow> profile_data \<Rightarrow> session" where
  \<comment> \<open>the session record \<^verbatim>\<open>parseAllMutualConnections\<close> creates before its loop\<close>
  "fresh_session env pd =
     \<lparr>profileData = pd, startTime = started env, connections = [], pagesProcessed = 0\<rparr>"

definition session_errors :: "js_error list" where
  \<comment> \<open>what the loop of a session can throw\<close>
  "session_errors =
     [SyntaxError, Error ''Session timeout exceeded'',
      Error ''Bot protection detected - aborting parsing'',
      Error ''Next page button not found'']"

definition hook :: string where
  "hook = ''https://hooks.example/a''"

definition entry :: "string \<Rightarrow> int \<Rightarrow> string item" where
  "entry pl t = \<lparr>payload = pl, webhookName = ''A'', timestamp = t\<rparr>"

definition three_enqueued :: "(int \<times> string event) list" where
  "three_enqueued =
     [(1000000, AddToQueue hook ''e1'' ''A'' 30),
      (1000001, AddToQueue hook ''e2'' ''A'' 30),
      (1000002, AddToQueue ''https://hooks.example/b'' ''x'' ''B'' 0),
      (1000003, AddToQueue hook ''e3'' ''A'' 30),
      (1000004, WebhooksChanged [(hook, Some 30), (''https://hooks.example/b'', None)]),
      (1030001, TimerFires 2),
      (1060005, TimerFires 3)]"

definition two_enqueued :: "(int \<times> string event) list" where
  \<comment> \<open>the second entry arrives a millisecond after the first was sent\<close>
  "two_enqueued =
     [(1000000, AddToQueue hook ''e1'' ''A'' 30),
      (1000001, AddToQueue hook ''e2'' ''A'' 30)]"

section \<open>Properties of the delivery retry\<close>

lemma attempts_bound:
  "attempts (postToWebhookDirect net k u p rc n) \<le> Suc rc"
proof (induction rc arbitrary: k)
  case 0
  show ?case
    by (subst postToWebhookDirect.simps)
       (simp add: attempts_def split: fetch_result.split)
next
  case (Suc rc)
  have "attempts (postToWebhookDirect net (Suc k) u p rc n) \<le> Suc rc"
    by (rule Suc.IH)
  then show ?case
    by (subst postToWebhookDirect.simps)
       (simp add: attempts_def split: fetch_result.split)
qed

lemma failed_step:
  assumes "failed (net k)"
  shows "postToWebhookDirect net k u p (Suc rc) n =
       Fetch u p # SetTimeout (case net k of Response status \<Rightarrow> 1000 | Rejected msg \<Rightarrow> 2000)
         # postToWebhookDirect net (Suc k) u p rc n"
proof (cases "net k")
  case (Response status)
  with assms have "\<not> ok status" by (simp add: failed_def)
  with Response show ?thesis by (subst postToWebhookDirect.simps) simp
next
  case (Rejected msg)
  then show ?thesis by (subst postToWebhookDirect.simps) simp
qed

lemma failed_last:
  assumes "failed (net k)"
  shows "attempts (postToWebhookDirect net k u p 0 n) = 1"
proof (cases "net k")
  case (Response status)
  with assms have "\<not> ok status" by (simp add: failed_def)
  with Response show ?thesis
    by (subst postToWebhookDirect.simps) (simp add: attempts_def)
next
  case (Rejected msg)
  then show ?thesis by (subst postToWebhookDirect.simps) (simp add: attempts_def)
qed

lemma attempts_when_all_fail:
  assumes "\<And>j. failed (net j)"
  shows "attempts (postToWebhookDirect net k u p rc n) = Suc rc"
proof (induction rc arbitrary: k)
  case 0
  from assms[of k] show ?case by (simp add: failed_last)
next
  case (Suc rc)
  from Suc.IH[of "Suc k"] show ?case
    by (simp add: failed_step[of net k, OF assms] attempts_def)
qed

lemma two_failures_then_success:
  assumes "failed (net 0)" "failed (net (Suc 0))"
    and "net (Suc (Suc 0)) = Response status" "ok status"
  shows "attempts (postToWebhookDirect net 0 u p 3 n) = 3
       \<and> last (postToWebhookDirect net 0 u p 3 n)
           = ShowNotification (n @ '' - Success'') (''Data sent successfully to '' @ n) True"
proof -
  have three: "(3::nat) = Suc (Suc (Suc 0))" by simp
  have third: "postToWebhookDirect net (Suc (Suc 0)) u p (Suc 0) n =
          [Fetch u p,
           ShowNotification (n @ '' - Success'') (''Data sent successfully to '' @ n) True]"
    using assms(3,4) by (subst postToWebhookDirect.simps) simp
  show ?thesis
    unfolding three
    by (simp add: failed_step[of net 0, OF assms(1)] failed_step[of net "Suc 0", OF assms(2)]
          third attempts_def)
qed

lemma retry_then_success:
  assumes "net 0 = Response 500" "net (Suc 0) = Rejected m"
    and "net (Suc (Suc 0)) = Response 200"
  shows "postToWebhookDirect net 0 u p 3 n =
           [Fetch u p, SetTimeout 1000, Fetch u p, SetTimeout 2000, Fetch u p,
            ShowNotification (n @ '' - Success'') (''Data sent successfully to '' @ n) True]"
proof -
  have three: "(3::nat) = Suc (Suc (Suc 0))" by simp
  show ?thesis
    unfolding three using assms
    by (simp add: postToWebhookDirect.simps ok_def)
qed

text \<open>
  C1.  A delivery dispatched from a queue starts with \<open>retryCount = 3\<close>.  When every
  response is a failure the guard \<open>retryCount > 0\<close> lets the delivery be re-armed three
  times, so the endpoint is contacted four times before the notification that speaks of
  3 attempts is raised: the fourth fetch is the one the claim excludes.
\<close>

theorem postToWebhookDirect_four_attempts:
  "postToWebhookDirect (\<lambda>k. Response 500) 0 ''https://hook'' ''{}'' 3 ''Hook'' =
     [Fetch ''https://hook'' ''{}'', SetTimeout 1000,
      Fetch ''https://hook'' ''{}'', SetTimeout 1000,
      Fetch ''https://hook'' ''{}'', SetTimeout 1000,
      Fetch ''https://hook'' ''{}'',
      ShowNotification ''Hook - Failed'' ''Failed to send data after 3 attempts'' False]
   \<and> attempts (postToWebhookDirect (\<lambda>k. Response 500) 0 ''https://hook'' ''{}'' 3 ''Hook'') = 4"
proof -
  have three: "(3::nat) = Suc (Suc (Suc 0))" by simp
  show ?thesis
    unfolding three
    by (simp add: postToWebhookDirect.simps ok_def attempts_def)
qed

section \<open>Detection of the shared-connections link\<close>

lemma shared_link_query:
  "url_search shared_link =
     ''facetConnectionOf=%22ABC%22&origin=MEMBER_PROFILE_CANNED_SEARCH''"
  by code_simp

lemma shared_link_param:
  "searchParams_get ''facetConnectionOf=%22ABC%22&origin=MEMBER_PROFILE_CANNED_SEARCH''
     ''facetConnectionOf''
     = Some (map of_char [CHR 0x22, CHR ''A'', CHR ''B'', CHR ''C'', CHR 0x22])"
  by code_simp

lemma label_count: "count_match ''5 other mutual connections'' = Some ''5''"
  by code_simp

lemma label_trim: "trim ''5 other mutual connections'' = ''5 other mutual connections''"
  by code_simp

lemma parseInt_5: "plus2 (parseInt ''5'') = Finite 7"
  by code_simp

lemma shared_link_nonempty: "shared_link \<noteq> []"
  by (simp add: shared_link_def)

lemma profile_doc_link:
  "querySelector [] profile_doc mutualConnectionsLink = Inr (Some link_element)"
  by code_simp

lemma link_element_text: "textContent link_element = ''5 other mutual connections''"
  by (simp add: link_element_def element_def)

lemma link_element_href: "href link_element = Resolved shared_link"
  by (simp add: link_element_def element_def)

text \<open>
  C4 (as amended).  On any page whose shared-connections link has the label
  ``5 other mutual connections'' and an address whose query holds
  \<^verbatim>\<open>facetConnectionOf=%22ABC%22\<close>, \<^verbatim>\<open>detectMutualConnections\<close> returns an object: its
  \<^verbatim>\<open>totalCount\<close> is 7, the 5 of the label plus 2, and its \<^verbatim>\<open>encodedId\<close> is the decoded
  value of the parameter, which keeps the two double-quote characters around \<^verbatim>\<open>ABC\<close>.
\<close>

theorem detectMutualConnections_example:
  assumes "querySelector eng doc mutualConnectionsLink = Inr (Some el)"
    and "textContent el = ''5 other mutual connections''"
    and "href el = Resolved shared_link"
  shows "detectMutualConnections eng doc =
           Some \<lparr>searchUrl = shared_link,
                 encodedId = map of_char [CHR 0x22, CHR ''A'', CHR ''B'', CHR ''C'', CHR 0x22],
                 totalCount = Some (Finite 7),
                 label = ''5 other mutual connections''\<rparr>"
  unfolding detectMutualConnections_def
  by (simp add: assms shared_link_nonempty shared_link_query shared_link_param
        label_count label_trim parseInt_5 Let_def del: count_match.simps)

theorem detectMutualConnections_example_witness:
  "querySelector [] profile_doc mutualConnectionsLink = Inr (Some link_element)
   \<and> textContent link_element = ''5 other mutual connections''
   \<and> href link_element = Resolved shared_link
   \<and> detectMutualConnections [] profile_doc =
         Some \<lparr>searchUrl = shared_link,
               encodedId = map of_char [CHR 0x22, CHR ''A'', CHR ''B'', CHR ''C'', CHR 0x22],
               totalCount = Some (Finite 7),
               label = ''5 other mutual connections''\<rparr>"
  using detectMutualConnections_example
          [OF profile_doc_link link_element_text link_element_href]
        profile_doc_link link_element_text link_element_href
  by simp

text \<open>
  The identifier the claim expects, the three letters alone, is not what is returned.
\<close>

theorem detect_encodedId_counterexample:
  "map_option detection.encodedId (detectMutualConnections [] profile_doc)
     \<noteq> Some (map of_char ''ABC'')
   \<and> map_option detection.totalCount (detectMutualConnections [] profile_doc)
       = Some (Some (Finite 7))"
  by code_simp

section \<open>Field extraction\<close>

lemma heading_rejected: "list_ex (\<lambda>s. s \<in> set old_engine) heading_selector"
  by code_simp

lemma h1_accepted: "\<not> list_ex (\<lambda>s. s \<in> set old_engine) [''h1'']"
  by code_simp

lemma heading_found:
  "map_option (\<lambda>el. trim (text_of el)) (find (matches [''h1'']) (descendants heading_doc))
     = Some ''Ada Lovelace''"
  by code_simp

text \<open>
  C6 (as amended).  \<^verbatim>\<open>extractTextContent\<close> makes one query with the whole selector
  group and never throws.  When the browser rejects a member of the group the query
  throws and the result is \<^verbatim>\<open>null\<close>, whatever the other members would match.  Otherwise
  the result is the trimmed text of the first element, in document order, that matches
  some member, and \<^verbatim>\<open>null\<close> when there is none.
\<close>

theorem extractTextContent_single_query:
  "(list_ex (\<lambda>s. s \<in> set eng) g \<longrightarrow> extractTextContent eng doc g = None)
   \<and> (\<not> list_ex (\<lambda>s. s \<in> set eng) g \<longrightarrow>
        extractTextContent eng doc g =
          map_option (\<lambda>el. trim (text_of el)) (find (matches g) (descendants doc)))"
  by (auto simp: extractTextContent_def querySelector_def split: option.splits)

theorem extractTextContent_single_query_witness:
  "list_ex (\<lambda>s. s \<in> set old_engine) heading_selector
   \<and> extractTextContent old_engine heading_doc heading_selector = None
   \<and> \<not> list_ex (\<lambda>s. s \<in> set old_engine) [''h1'']
   \<and> extractTextContent old_engine heading_doc [''h1''] = Some ''Ada Lovelace''"
  using extractTextContent_single_query [of old_engine heading_selector heading_doc]
        extractTextContent_single_query [of old_engine "[''h1'']" heading_doc]
        heading_rejected h1_accepted heading_found
  by simp

text \<open>
  With a group whose first member the browser rejects and whose second member matches a
  heading, the code gives \<^verbatim>\<open>null\<close> where the operation of the specification passes
  over the first member and gives the heading's text.
\<close>

theorem extractTextContent_counterexample:
  "extractTextContent old_engine heading_doc heading_selector = None
   \<and> extractText_spec old_engine heading_doc heading_selector = Some ''Ada Lovelace''"
  by code_simp

section \<open>Validation of connection records\<close>

lemma extractConnectionData_Some:
  assumes "extractConnectionData eng st el = Some c"
  shows "\<exists>nameEl urlEl.
           query_or eng el connectionName nameFallback = Inr (Some nameEl)
         \<and> query_or eng el sel_profileUrl profileUrlFallback = Inr (Some urlEl)
         \<and> connection.name c = trim (text_of nameEl)
         \<and> connection.profileUrl c = href_text (href urlEl)
         \<and> connection.name c \<noteq> [] \<and> connection.profileUrl c \<noteq> []"
  using assms unfolding extractConnectionData_def
  by (auto simp: Let_def split: sum.splits option.splits if_splits)

lemma collect_valid:
  "c \<in> set (collect eng ts i items) \<Longrightarrow>
     connection.name c \<noteq> [] \<and> connection.profileUrl c \<noteq> []"
proof (induction items arbitrary: i)
  case Nil
  then show ?case by simp
next
  case (Cons item items)
  show ?case
  proof (cases "extractConnectionData eng (ts i) item")
    case None
    with Cons show ?thesis by simp
  next
    case (Some d)
    with Cons.prems have "c = d \<or> c \<in> set (collect eng ts (Suc i) items)" by simp
    then show ?thesis
    proof
      assume "c = d"
      with Some extractConnectionData_Some show ?thesis by blast
    next
      assume "c \<in> set (collect eng ts (Suc i) items)"
      then show ?thesis by (rule Cons.IH)
    qed
  qed
qed

lemma parseSearchResults_valid:
  assumes "parseSearchResults eng ts pg = Inr cs" "c \<in> set cs"
  shows "connection.name c \<noteq> [] \<and> connection.profileUrl c \<noteq> []"
proof -
  from assms(1) have "cs = [] \<or> (\<exists>items. cs = collect eng ts 0 items)"
    unfolding parseSearchResults_def
    by (auto split: sum.splits bool.splits if_splits)
  with assms(2) collect_valid show ?thesis by fastforce
qed

lemma pages_cases:
  assumes "pages eng vs k s = (r, s')"
  obtains (stop) "s' = s"
    | (last) cs where "parseSearchResults eng (stamps (vs k)) (shown (vs k)) = Inr cs"
        "s' = s\<lparr>connections := connections s @ cs, pagesProcessed := pagesProcessed s + 1\<rparr>"
    | (more) cs u where "k \<le> maxPagesPerSession"
        "\<not> sessionTimeout < clock (vs k) - startTime s"
        "parseSearchResults eng (stamps (vs k)) (shown (vs k)) = Inr cs"
        "hasNextPage eng (shown (vs k)) = Inr True"
        "navigateToNextPage eng (shown (vs k)) = Inr u"
        "pages eng vs (Suc k)
           (s\<lparr>connections := connections s @ cs, pagesProcessed := pagesProcessed s + 1\<rparr>)
         = (r, s')"
  using assms
  by (subst (asm) pages.simps) (auto split: if_splits sum.splits bool.splits)

lemma pages_valid:
  "pages eng vs k s = (r, s') \<Longrightarrow> valid_records (connections s) \<Longrightarrow>
     valid_records (connections s')"
proof (induction eng vs k s rule: pages.induct)
  case (1 eng vs currentPage s)
  from "1.prems"(1) show ?case
  proof (cases rule: pages_cases)
    case stop
    with "1.prems"(2) show ?thesis by simp
  next
    case (last cs)
    have "valid_records cs"
      unfolding valid_records_def list_all_iff
      using parseSearchResults_valid[OF last(1)] by blast
    with "1.prems"(2) last(2) show ?thesis by (simp add: valid_records_def)
  next
    case (more cs u)
    have "valid_records cs"
      unfolding valid_records_def list_all_iff
      using parseSearchResults_valid[OF more(3)] by blast
    with "1.prems"(2)
    have v: "valid_records (connections (s\<lparr>connections := connections s @ cs,
                pagesProcessed := pagesProcessed s + 1\<rparr>))"
      by (simp add: valid_records_def)
    show ?thesis
      by (rule "1.IH"[OF more(1) _ more(3) more(4) _ more(5) more(6) v])
         (use more(2) in auto)
  qed
qed

lemma parseAll_payload:
  assumes "parseAllMutualConnections eng env this pd = (Inr p, this')"
  shows "\<exists>s. pages eng (visits env) 1
              \<lparr>profileData = pd, startTime = started env, connections = [],
               pagesProcessed = 0\<rparr> = (None, s)
            \<and> mutualConnections p = connections s
            \<and> aggregate.totalCount p = length (connections s)
            \<and> pagesScraped p = pagesProcessed s
            \<and> this' = \<lparr>isProcessing = False, currentSession = Some s\<rparr>"
  using assms unfolding parseAllMutualConnections_def buildWebhookPayload_def
  by (auto split: if_splits prod.splits option.splits sum.splits)

text \<open>
  C5.  A row in which no name element or no profile-link element is found yields no
  record, and every record in the payload that a collection run returns has a name and a
  profile URL that are not empty.
\<close>

theorem collected_records_have_name_and_url:
  "(query_or eng el connectionName nameFallback = Inr None
      \<or> query_or eng el sel_profileUrl profileUrlFallback = Inr None
      \<longrightarrow> extractConnectionData eng st el = None)
   \<and> (parseAllMutualConnections eng env this pd = (Inr p, this') \<longrightarrow>
        (\<forall>c \<in> set (mutualConnections p).
           connection.name c \<noteq> [] \<and> connection.profileUrl c \<noteq> []))"
proof (intro conjI impI)
  assume "query_or eng el connectionName nameFallback = Inr None
      \<or> query_or eng el sel_profileUrl profileUrlFallback = Inr None"
  then show "extractConnectionData eng st el = None"
    unfolding extractConnectionData_def
    by (auto split: sum.splits option.splits)
next
  assume "parseAllMutualConnections eng env this pd = (Inr p, this')"
  from parseAll_payload[OF this] obtain s where
    run: "pages eng (visits env) 1
              \<lparr>profileData = pd, startTime = started env, connections = [],
               pagesProcessed = 0\<rparr> = (None, s)"
    and mc: "mutualConnections p = connections s" by blast
  have "valid_records (connections s)"
    by (rule pages_valid[OF run]) (simp add: valid_records_def)
  with mc show "\<forall>c \<in> set (mutualConnections p).
           connection.name c \<noteq> [] \<and> connection.profileUrl c \<noteq> []"
    by (simp add: valid_records_def list_all_iff)
qed

lemma row_no_name_query: "query_or [] row_no_name connectionName nameFallback = Inr None"
  by code_simp

lemma one_page_run:
  "parseAllMutualConnections [] one_page_env idle source_profile_data =
     (Inr one_page_payload, \<lparr>isProcessing = False, currentSession = Some first_page_done\<rparr>)"
  by code_simp

lemma one_page_payload_records: "mutualConnections one_page_payload = [ada]"
  by (simp add: one_page_payload_def)

lemma ada_valid: "connection.name ada \<noteq> [] \<and> connection.profileUrl ada \<noteq> []"
  by (simp add: ada_def)

theorem collected_records_have_name_and_url_witness:
  "query_or [] row_no_name connectionName nameFallback = Inr None
   \<and> extractConnectionData [] ''T'' row_no_name = None
   \<and> parseAllMutualConnections [] one_page_env idle source_profile_data =
       (Inr one_page_payload, \<lparr>isProcessing = False, currentSession = Some first_page_done\<rparr>)
   \<and> mutualConnections one_page_payload = [ada]
   \<and> connection.name ada \<noteq> [] \<and> connection.profileUrl ada \<noteq> []"
  using collected_records_have_name_and_url
          [of "[]" row_no_name "''T''" one_page_env idle source_profile_data
              one_page_payload
              "\<lparr>isProcessing = False, currentSession = Some first_page_done\<rparr>"]
        row_no_name_query one_page_run one_page_payload_records
  by simp

section \<open>Validation of the essential fields\<close>









section \<open>Payloads\<close>

text \<open>
  C9.  Whatever the session record holds, the aggregate payload lists the session's
  records, its \<^verbatim>\<open>totalCount\<close> is the length of that list, and its \<^verbatim>\<open>pagesScraped\<close>
  is the counter of pages processed; the count does not depend on the profile data,
  where the approximate count read from the profile page is kept.
\<close>

theorem buildWebhookPayload_counts:
  assumes "currentSession this = Some s"
  shows "\<exists>p. buildWebhookPayload st this = Inr p
           \<and> mutualConnections p = connections s
           \<and> aggregate.totalCount p = length (mutualConnections p)
           \<and> pagesScraped p = pagesProcessed s
           \<and> (\<forall>pd. map_sum id aggregate.totalCount
                     (buildWebhookPayload st (this\<lparr>currentSession := Some (s\<lparr>profileData := pd\<rparr>)\<rparr>))
                   = Inr (length (connections s)))"
  using assms by (simp add: buildWebhookPayload_def)

theorem buildWebhookPayload_counts_witness:
  "currentSession (running first_page_done) = Some first_page_done
   \<and> buildWebhookPayload at_finish (running first_page_done) = Inr one_page_payload
   \<and> aggregate.totalCount one_page_payload = 1
   \<and> length (mutualConnections one_page_payload) = 1
   \<and> pagesScraped one_page_payload = pagesProcessed first_page_done
   \<and> profile_data.totalCount (profileData first_page_done) = Some 7"
  using buildWebhookPayload_counts [of "running first_page_done" first_page_done at_finish]
  by (simp add: running_def first_page_done_def one_page_payload_def buildWebhookPayload_def
        at_finish_def source_profile_data_def or_empty_def)


lemma two_records_payloads:
  "buildBidirectionalPayloads at_finish (\<lambda>i. at_finish) (running two_records) =
     Inr [Aggregate (one_page_payload\<lparr>mutualConnections := [ada, bob], aggregate.totalCount := 2\<rparr>),
          Bidirectional (bidirectionalPayload at_finish source_profile_data ada),
          Bidirectional (bidirectionalPayload at_finish source_profile_data bob)]"
  by code_simp

lemma two_records_session: "currentSession (running two_records) = Some two_records"
  by (simp add: running_def)

lemma two_records_main:
  "buildWebhookPayload at_finish (running two_records) =
     Inr (one_page_payload\<lparr>mutualConnections := [ada, bob], aggregate.totalCount := 2\<rparr>)"
  by code_simp

lemma two_records_relation:
  "relationType (bidirectional.metadata (bidirectionalPayload at_finish source_profile_data ada))
     = ''mutual_connection''
   \<and> viewed_connection.name
       (bidirectional.profileViewed (bidirectionalPayload at_finish source_profile_data bob))
     = ''Bob Kahn''
   \<and> viewed_connection.linkedinId
       (bidirectional.profileViewed (bidirectionalPayload at_finish source_profile_data bob))
     = Some ''bob''"
  by code_simp

text \<open>
  C8.  For a session with \<open>N\<close> records \<^verbatim>\<open>buildBidirectionalPayloads\<close> returns
  \<open>1 + N\<close> payloads: first the aggregate payload, then for each record, in order, a
  payload with the four parts \<^verbatim>\<open>profileViewed\<close>, \<^verbatim>\<open>mutualConnectionsWith\<close>,
  \<^verbatim>\<open>connectionDetails\<close> and \<^verbatim>\<open>metadata\<close> that shows the connection as the profile
  viewed and the source profile as the one it is connected with, and whose
  \<^verbatim>\<open>metadata.relationType\<close> is \<^verbatim>\<open>mutual_connection\<close>.
\<close>

theorem buildBidirectionalPayloads_shape:
  assumes "currentSession this = Some s"
  shows "\<exists>main ps.
           buildWebhookPayload st this = Inr main
         \<and> buildBidirectionalPayloads st sts this = Inr (Aggregate main # ps)
         \<and> length (Aggregate main # ps) = 1 + length (connections s)
         \<and> (\<forall>i < length (connections s).
              \<exists>b. ps ! i = Bidirectional b
                \<and> viewed_connection.name (bidirectional.profileViewed b)
                    = connection.name (connections s ! i)
                \<and> viewed_connection.profileUrl (bidirectional.profileViewed b)
                    = connection.profileUrl (connections s ! i)
                \<and> source_profile.name (mutualConnectionsWith b)
                    = or_empty (profileName (profileData s))
                \<and> source_profile.profileUrl (mutualConnectionsWith b)
                    = or_empty (profile_data.profileUrl (profileData s))
                \<and> details.headline (connectionDetails b)
                    = connection.headline (connections s ! i)
                \<and> relationType (bidirectional.metadata b) = ''mutual_connection'')"
  using assms
  by (simp add: buildBidirectionalPayloads_def buildWebhookPayload_def bidirectionalPayload_def)

theorem buildBidirectionalPayloads_shape_witness:
  "currentSession (running two_records) = Some two_records
   \<and> length (connections two_records) = 2
   \<and> buildBidirectionalPayloads at_finish (\<lambda>i. at_finish) (running two_records) =
       Inr [Aggregate (one_page_payload\<lparr>mutualConnections := [ada, bob],
                                         aggregate.totalCount := 2\<rparr>),
            Bidirectional (bidirectionalPayload at_finish source_profile_data ada),
            Bidirectional (bidirectionalPayload at_finish source_profile_data bob)]
   \<and> relationType (bidirectional.metadata (bidirectionalPayload at_finish source_profile_data ada))
       = ''mutual_connection''"
  using buildBidirectionalPayloads_shape
          [OF two_records_session, of at_finish "\<lambda>i. at_finish"]
        two_records_session two_records_payloads two_records_relation
  by (simp add: two_records_def first_page_done_def)

section \<open>The collection session\<close>

lemma querySelector_error: "querySelector eng r g = Inl e \<Longrightarrow> e = SyntaxError"
  by (auto simp: querySelector_def split: if_splits)

lemma querySelectorAll_error: "querySelectorAll eng r g = Inl e \<Longrightarrow> e = SyntaxError"
  by (auto simp: querySelectorAll_def split: if_splits)

lemma detectBotProtection_error: "detectBotProtection eng pg = Inl e \<Longrightarrow> e = SyntaxError"
  unfolding detectBotProtection_def
  by (auto split: sum.splits dest: querySelector_error)

lemma parseSearchResults_error:
  "parseSearchResults eng ts pg = Inl e \<Longrightarrow>
     e = SyntaxError \<or> e = Error ''Bot protection detected - aborting parsing''"
  unfolding parseSearchResults_def
  by (auto split: sum.splits bool.splits if_splits
           dest: detectBotProtection_error querySelectorAll_error)

lemma hasNextPage_error: "hasNextPage eng pg = Inl e \<Longrightarrow> e = SyntaxError"
  unfolding hasNextPage_def
  by (auto split: sum.splits option.splits dest: querySelector_error)

lemma navigateToNextPage_error:
  "navigateToNextPage eng pg = Inl e \<Longrightarrow>
     e = SyntaxError \<or> e = Error ''Next page button not found''"
  unfolding navigateToNextPage_def
  by (auto split: sum.splits option.splits dest: querySelector_error)

lemma pages_error:
  "pages eng vs k s = (Some e, s') \<Longrightarrow> e \<in> set session_errors"
proof (induction eng vs k s rule: pages.induct)
  case (1 eng vs k s)
  show ?case
  proof (cases "k \<le> maxPagesPerSession \<and> \<not> sessionTimeout < clock (vs k) - startTime s")
    case False
    with "1.prems" show ?thesis
      by (subst (asm) pages.simps) (auto simp: session_errors_def split: if_splits)
  next
    case True
    show ?thesis
    proof (cases "parseSearchResults eng (stamps (vs k)) (shown (vs k))")
      case (Inl e1)
      with True "1.prems" have "e = e1"
        by (subst (asm) pages.simps) auto
      with parseSearchResults_error[OF Inl] show ?thesis by (auto simp: session_errors_def)
    next
      case (Inr cs)
      show ?thesis
      proof (cases "hasNextPage eng (shown (vs k))")
        case (Inl e2)
        with True Inr "1.prems" have "e = e2"
          by (subst (asm) pages.simps) auto
        with hasNextPage_error[OF Inl] show ?thesis by (auto simp: session_errors_def)
      next
        case hn: (Inr b)
        show ?thesis
        proof (cases b)
          case False
          with True Inr hn "1.prems" show ?thesis
            by (subst (asm) pages.simps) auto
        next
          case b: True
          show ?thesis
          proof (cases "navigateToNextPage eng (shown (vs k))")
            case (Inl e3)
            with True Inr hn b "1.prems" have "e = e3"
              by (subst (asm) pages.simps) auto
            with navigateToNextPage_error[OF Inl] show ?thesis
              by (auto simp: session_errors_def)
          next
            case nv: (Inr u)
            from True Inr hn b nv "1.prems"
            have run: "pages eng vs (Suc k)
                    (s\<lparr>connections := connections s @ cs,
                       pagesProcessed := pagesProcessed s + 1\<rparr>) = (Some e, s')"
              by (subst (asm) pages.simps) auto
            from True have a: "k \<le> maxPagesPerSession" and t: "\<not> sessionTimeout < clock (vs k) - startTime s"
              by auto
            show ?thesis
              using "1.IH"[OF a t Inr] hn b nv run by auto
          qed
        qed
      qed
    qed
  qed
qed

lemma parseAll_clears_flag:
  "\<not> isProcessing this \<Longrightarrow>
     \<not> isProcessing (snd (parseAllMutualConnections eng env this pd))"
  unfolding parseAllMutualConnections_def
  by (auto split: prod.splits option.splits sum.splits)

lemma parseAll_error:
  assumes "\<not> isProcessing this"
    and "fst (parseAllMutualConnections eng env this pd) = Inl e"
  shows "e \<in> set session_errors"
proof -
  obtain r s where run: "pages eng (visits env) 1 (fresh_session env pd) = (r, s)"
    by (cases "pages eng (visits env) 1 (fresh_session env pd)")
  show ?thesis
  proof (cases r)
    case None
    with run assms show ?thesis
      by (simp add: parseAllMutualConnections_def fresh_session_def buildWebhookPayload_def)
  next
    case (Some e')
    with run assms have "e = e'"
      by (simp add: parseAllMutualConnections_def fresh_session_def)
    with Some run pages_error show ?thesis by blast
  qed
qed

lemma intrude_refused:
  "isProcessing this \<Longrightarrow> intrude calls this = (replicate (length calls) refused, this)"
  by (induction calls) (auto simp: parseAll_call_def)

lemma session_run_head:
  "session_run eng env others n
       (loop_head env k \<lparr>isProcessing = True, currentSession = Some s\<rparr>) = (ms, fin)
   \<Longrightarrow> list_all (\<lambda>(a, rs, b). isProcessing a \<and> list_all (\<lambda>r. r = refused) rs \<and> b = a) ms
     \<and> fin = (case pages eng (visits env) k s of
                (Some e, s') \<Rightarrow> (Inl e, \<lparr>isProcessing = False, currentSession = Some s'\<rparr>)
              | (None, s') \<Rightarrow>
                  (case buildWebhookPayload (finish env)
                          \<lparr>isProcessing = True, currentSession = Some s'\<rparr> of
                     Inl e \<Rightarrow> (Inl e, \<lparr>isProcessing = False, currentSession = Some s'\<rparr>)
                   | Inr p \<Rightarrow> (Inr p, \<lparr>isProcessing = False, currentSession = Some s'\<rparr>)))"
proof (induction eng "visits env" k s arbitrary: n ms fin rule: pages.induct)
  case (1 eng k s)
  let ?on = "\<lparr>isProcessing = True, currentSession = Some s\<rparr>"
  show ?case
  proof (cases "k \<le> maxPagesPerSession \<and> \<not> sessionTimeout < clock (visits env k) - startTime s")
    case False
    with "1.prems" show ?thesis
      by (subst pages.simps)
         (auto simp: loop_head_def leave_def conclude_def buildWebhookPayload_def
               split: if_splits)
  next
    case True
    then have a: "k \<le> maxPagesPerSession"
      and t: "\<not> sessionTimeout < clock (visits env k) - startTime s" by auto
    from True have head: "loop_head env k ?on = (Suspended (Parsing k), ?on)"
      by (simp add: loop_head_def)
    have intr: "\<And>m s'. intrude (others m) \<lparr>isProcessing = True, currentSession = Some s'\<rparr>
                 = (replicate (length (others m)) refused,
                    \<lparr>isProcessing = True, currentSession = Some s'\<rparr>)"
      by (rule intrude_refused) simp
    show ?thesis
    proof (cases "parseSearchResults eng (stamps (visits env k)) (shown (visits env k))")
      case (Inl e1)
      with True head intr "1.prems" show ?thesis
        by (subst pages.simps) (auto simp: leave_def list_all_iff)
    next
      case (Inr cs)
      let ?s2 = "s\<lparr>connections := connections s @ cs, pagesProcessed := pagesProcessed s + 1\<rparr>"
      show ?thesis
      proof (cases "hasNextPage eng (shown (visits env k))")
        case (Inl e2)
        with True head intr Inr "1.prems" show ?thesis
          by (subst pages.simps) (auto simp: leave_def list_all_iff)
      next
        case hn: (Inr b)
        show ?thesis
        proof (cases b)
          case False
          with True head intr Inr hn "1.prems" show ?thesis
            by (subst pages.simps)
               (auto simp: leave_def conclude_def buildWebhookPayload_def list_all_iff)
        next
          case b: True
          show ?thesis
          proof (cases "navigateToNextPage eng (shown (visits env k))")
            case (Inl e3)
            with True head intr Inr hn b "1.prems" show ?thesis
              by (subst pages.simps) (auto simp: leave_def list_all_iff)
          next
            case nv: (Inr u)
            obtain ms' fin' where rest:
              "session_run eng env others (Suc (Suc n))
                 (loop_head env (Suc k) \<lparr>isProcessing = True, currentSession = Some ?s2\<rparr>)
                 = (ms', fin')"
              by (cases "session_run eng env others (Suc (Suc n))
                 (loop_head env (Suc k) \<lparr>isProcessing = True, currentSession = Some ?s2\<rparr>)")
            from b have b': "b = True" by simp
            note ih = "1.hyps"[OF a t Inr hn b' nv rest]
            from True head intr Inr hn b nv rest "1.prems"
            have ms: "ms = (?on, replicate (length (others n)) refused, ?on)
                      # (\<lparr>isProcessing = True, currentSession = Some ?s2\<rparr>,
                         replicate (length (others (Suc n))) refused,
                         \<lparr>isProcessing = True, currentSession = Some ?s2\<rparr>) # ms'"
              and fin: "fin = fin'"
              by auto
            have pg: "pages eng (visits env) k s = pages eng (visits env) (Suc k) ?s2"
              using True Inr hn b nv by (subst pages.simps) simp
            from ih ms fin pg show ?thesis by (simp add: list_all_iff)
          qed
        qed
      qed
    qed
  qed
qed


lemma parseAll_among_pages:
  "list_all (\<lambda>(a, rs, b). isProcessing a \<and> list_all (\<lambda>r. r = refused) rs \<and> b = a)
      (fst (parseAll_among eng env others this pd))
   \<and> snd (parseAll_among eng env others this pd) = parseAllMutualConnections eng env this pd"
proof (cases "isProcessing this")
  case True
  then show ?thesis
    by (simp add: parseAll_among_def parseAll_call_def refused_def
                  parseAllMutualConnections_def)
next
  case False
  let ?s = "\<lparr>profileData = pd, startTime = started env, connections = [],
              pagesProcessed = 0\<rparr>"
  obtain ms fin where run:
    "session_run eng env others 0
       (loop_head env (Suc 0) \<lparr>isProcessing = True, currentSession = Some ?s\<rparr>) = (ms, fin)"
    by (cases "session_run eng env others 0
       (loop_head env (Suc 0) \<lparr>isProcessing = True, currentSession = Some ?s\<rparr>)")
  have upd: "this\<lparr>isProcessing := True, currentSession := Some ?s\<rparr>
          = \<lparr>isProcessing = True, currentSession = Some ?s\<rparr>"
    by (cases this) simp
  from False have "parseAll_among eng env others this pd = (ms, fin)"
    by (simp add: parseAll_among_def parseAll_call_def upd run)
  with session_run_head[OF run] False show ?thesis
    by (simp add: parseAllMutualConnections_def)
qed

lemma parseAll_call_idle:
  "\<not> isProcessing this \<Longrightarrow> fst (parseAll_call env this pd) \<noteq> refused"
  by (simp add: parseAll_call_def loop_head_def leave_def refused_def maxPagesPerSession_def)

lemma interrupted_run:
  "parseAll_among [] slow_env callers idle source_profile_data
     = ([(running (fresh_session slow_env source_profile_data), [refused],
          running (fresh_session slow_env source_profile_data)),
         (running first_page_done, [refused], running first_page_done)],
        Inl (Error ''Session timeout exceeded''),
        \<lparr>isProcessing = False, currentSession = Some first_page_done\<rparr>)"
  by code_simp

lemma call_while_running:
  "isProcessing (running first_page_done)
   \<and> parseAll_call one_page_env (running first_page_done) source_profile_data
       = (refused, running first_page_done)"
  by code_simp

lemma call_when_idle:
  "clock (visits slow_env 1) - started slow_env \<le> sessionTimeout
   \<and> parseAll_call slow_env idle source_profile_data
       = (Suspended (Parsing 1), running (fresh_session slow_env source_profile_data))"
  by code_simp

lemma call_afterwards:
  "\<not> isProcessing idle
   \<and> parseAll_call one_page_env
       \<lparr>isProcessing = False, currentSession = Some first_page_done\<rparr> source_profile_data
     = (Suspended (Parsing 1), running (fresh_session one_page_env source_profile_data))"
  by code_simp

text \<open>
  C7.  Take a call of \<^verbatim>\<open>parseAllMutualConnections\<close> and run it to its end, other calls
  reaching the same parser each time the session is suspended at an \<^verbatim>\<open>await\<close>.  At
  every suspension the processing flag is set; each call that arrives then is settled at
  once with the error ``Parsing already in progress'', not left pending, and the parser,
  with its session record, is what it was before these calls.  The session ends as it
  ends with no other call about.  A call made while the flag is set is refused and leaves
  the parser as it was.  A call made while the flag is clear sets the flag and a new
  session record before it is first suspended (unless the clock has it time out at
  once); it leaves the flag clear when it ends, whether it returns a payload or throws,
  and a later call is then not refused.
\<close>

theorem session_mutual_exclusion:
  "list_all (\<lambda>(a, rs, b). isProcessing a \<and> list_all (\<lambda>r. r = refused) rs \<and> b = a)
      (fst (parseAll_among eng env others this pd))
   \<and> snd (parseAll_among eng env others this pd) = parseAllMutualConnections eng env this pd
   \<and> (isProcessing this \<longrightarrow> parseAll_call env this pd = (refused, this))
   \<and> (\<not> isProcessing this \<longrightarrow>
        (clock (visits env 1) - started env \<le> sessionTimeout \<longrightarrow>
           parseAll_call env this pd
             = (Suspended (Parsing 1),
                \<lparr>isProcessing = True,
                 currentSession =
                   Some \<lparr>profileData = pd, startTime = started env, connections = [],
                         pagesProcessed = 0\<rparr>\<rparr>))
      \<and> \<not> isProcessing (snd (snd (parseAll_among eng env others this pd)))
      \<and> fst (parseAll_call env' (snd (snd (parseAll_among eng env others this pd))) pd')
          \<noteq> refused)"
proof (intro conjI impI)
  show "parseAll_call env this pd
             = (Suspended (Parsing 1),
                \<lparr>isProcessing = True,
                 currentSession =
                   Some \<lparr>profileData = pd, startTime = started env, connections = [],
                         pagesProcessed = 0\<rparr>\<rparr>)"
    if "\<not> isProcessing this" "clock (visits env 1) - started env \<le> sessionTimeout"
    using that
    by (cases this) (simp add: parseAll_call_def loop_head_def maxPagesPerSession_def)
  show "list_all (\<lambda>(a, rs, b). isProcessing a \<and> list_all (\<lambda>r. r = refused) rs \<and> b = a)
      (fst (parseAll_among eng env others this pd))"
    using parseAll_among_pages by blast
  show eq: "snd (parseAll_among eng env others this pd)
              = parseAllMutualConnections eng env this pd"
    using parseAll_among_pages by blast
  show "parseAll_call env this pd = (refused, this)" if "isProcessing this"
    using that by (simp add: parseAll_call_def)
  show c: "\<not> isProcessing (snd (snd (parseAll_among eng env others this pd)))"
    if "\<not> isProcessing this"
    using parseAll_clears_flag[OF that] by (simp add: eq)
  show "fst (parseAll_call env' (snd (snd (parseAll_among eng env others this pd))) pd')
          \<noteq> refused" if "\<not> isProcessing this"
    using c[OF that] by (rule parseAll_call_idle)
qed

theorem session_mutual_exclusion_witness:
  "\<not> isProcessing idle
   \<and> parseAll_among [] slow_env callers idle source_profile_data
     = ([(running (fresh_session slow_env source_profile_data), [refused],
          running (fresh_session slow_env source_profile_data)),
         (running first_page_done, [refused], running first_page_done)],
        Inl (Error ''Session timeout exceeded''),
        \<lparr>isProcessing = False, currentSession = Some first_page_done\<rparr>)
   \<and> parseAllMutualConnections [] slow_env idle source_profile_data
     = (Inl (Error ''Session timeout exceeded''),
        \<lparr>isProcessing = False, currentSession = Some first_page_done\<rparr>)
   \<and> clock (visits slow_env 1) - started slow_env \<le> sessionTimeout
   \<and> parseAll_call slow_env idle source_profile_data
       = (Suspended (Parsing 1), running (fresh_session slow_env source_profile_data))
   \<and> isProcessing (running first_page_done)
   \<and> parseAll_call one_page_env (running first_page_done) source_profile_data
       = (refused, running first_page_done)
   \<and> fst (parseAll_call one_page_env
            \<lparr>isProcessing = False, currentSession = Some first_page_done\<rparr>
            source_profile_data) = Suspended (Parsing 1)
   \<and> Suspended (Parsing 1) \<noteq> refused"
  using session_mutual_exclusion
          [of "[]" slow_env callers idle source_profile_data one_page_env source_profile_data]
        session_mutual_exclusion
          [of "[]" one_page_env callers "running first_page_done" source_profile_data]
        interrupted_run call_when_idle call_while_running call_afterwards
  by (simp add: refused_def)

lemma slow_second_visit:
  "2 \<le> maxPagesPerSession
   \<and> clock (visits slow_env 2) - startTime first_page_done > sessionTimeout"
  by code_simp

lemma slow_loop:
  "pages [] (visits slow_env) 1 (fresh_session slow_env source_profile_data)
     = (Some (Error ''Session timeout exceeded''), first_page_done)"
  by code_simp

text \<open>
  C3 (as amended).  When the reading of the clock at the top of an iteration is more than
  the session timeout after the start, the loop throws the error with the message
  ``Session timeout exceeded'' and leaves the session record as the earlier iterations
  made it.  The call then ends with that error alone: no payload and no record reaches
  the caller; the flag is cleared and the records stay in the parser's session record.
\<close>

theorem session_timeout_aborts:
  "(k \<le> maxPagesPerSession \<and> clock (vs k) - startTime s > sessionTimeout \<longrightarrow>
      pages eng vs k s = (Some (Error ''Session timeout exceeded''), s))
   \<and> (\<not> isProcessing this
        \<and> pages eng (visits env) 1 (fresh_session env pd)
            = (Some (Error ''Session timeout exceeded''), s') \<longrightarrow>
      parseAllMutualConnections eng env this pd
        = (Inl (Error ''Session timeout exceeded''),
           \<lparr>isProcessing = False, currentSession = Some s'\<rparr>))"
proof (intro conjI impI)
  assume "k \<le> maxPagesPerSession \<and> clock (vs k) - startTime s > sessionTimeout"
  then show "pages eng vs k s = (Some (Error ''Session timeout exceeded''), s)"
    by (subst pages.simps) simp
next
  assume "\<not> isProcessing this
        \<and> pages eng (visits env) 1 (fresh_session env pd)
            = (Some (Error ''Session timeout exceeded''), s')"
  then show "parseAllMutualConnections eng env this pd
        = (Inl (Error ''Session timeout exceeded''),
           \<lparr>isProcessing = False, currentSession = Some s'\<rparr>)"
    by (simp add: parseAllMutualConnections_def fresh_session_def)
qed

theorem session_timeout_aborts_witness:
  "2 \<le> maxPagesPerSession
   \<and> clock (visits slow_env 2) - startTime first_page_done > sessionTimeout
   \<and> pages [] (visits slow_env) 2 first_page_done
       = (Some (Error ''Session timeout exceeded''), first_page_done)
   \<and> \<not> isProcessing idle
   \<and> pages [] (visits slow_env) 1 (fresh_session slow_env source_profile_data)
       = (Some (Error ''Session timeout exceeded''), first_page_done)
   \<and> parseAllMutualConnections [] slow_env idle source_profile_data
       = (Inl (Error ''Session timeout exceeded''),
          \<lparr>isProcessing = False, currentSession = Some first_page_done\<rparr>)"
  using session_timeout_aborts
          [of 2 "visits slow_env" first_page_done "[]" idle slow_env source_profile_data
              first_page_done]
        slow_second_visit slow_loop
  by (simp add: idle_def)

text \<open>
  A session that times out at its second page after one record was collected: the
  caller gets the error, and the record is only in the parser's state.
\<close>

theorem session_timeout_counterexample:
  "parseAllMutualConnections [] slow_env idle source_profile_data
     = (Inl (Error ''Session timeout exceeded''),
        \<lparr>isProcessing = False, currentSession = Some first_page_done\<rparr>)
   \<and> connections first_page_done = [ada]"
  by code_simp


section \<open>Order and spacing of the sends of one endpoint\<close>

lemma spaced_append:
  "spaced d (ts @ [t]) = (spaced d ts \<and> (ts = [] \<or> d \<le> t - last ts))"
  by (induction d ts rule: spaced.induct) auto

lemma sent_to_posted:
  "sent_to u (w\<lparr>posted := posted w @ [(url, it, t)]\<rparr>)
     = (if url = u then sent_to u w @ [(it, t)] else sent_to u w)"
  by (simp add: sent_to_def)

lemma sent_to_update:
  "sent_to u (w\<lparr>webhookQueues := q, posted := posted w @ [(url, it, t)]\<rparr>)
     = (if url = u then sent_to u w @ [(it, t)] else sent_to u w)"
  by (simp add: sent_to_def)

lemma fifo_inv_cong:
  "webhookQueues w' u = webhookQueues w u \<Longrightarrow> sent_to u w' = sent_to u w \<Longrightarrow>
     fifo_inv i u es w' = fifo_inv i u es w"
  by (simp add: fifo_inv_def split: option.split)

lemma sent_to_clearTimeout [simp]: "sent_to u (clearTimeout h w) = sent_to u w"
  by (simp add: sent_to_def clearTimeout_def)

lemma queues_clearTimeout [simp]: "webhookQueues (clearTimeout h w) = webhookQueues w"
  by (simp add: clearTimeout_def)

lemma sent_to_arm [simp]: "sent_to u (arm url qd due w) = sent_to u w"
  by (simp add: sent_to_def arm_def)

lemma queues_arm [simp]:
  "webhookQueues (arm url qd due w) = (webhookQueues w)(url \<mapsto> qd\<lparr>timer := Some (nextHandle w)\<rparr>)"
  by (simp add: arm_def)

lemma fifo_inv_clearTimeout [simp]: "fifo_inv i u es (clearTimeout h w) = fifo_inv i u es w"
  by (rule fifo_inv_cong) simp_all

lemma fifo_inv_other:
  assumes "url \<noteq> u"
  shows "fifo_inv i u es (arm url qd due w) = fifo_inv i u es w"
    and "fifo_inv i u es (w\<lparr>webhookQueues := (webhookQueues w)(url \<mapsto> qd),
                              posted := posted w @ [(url, it, t)]\<rparr>) = fifo_inv i u es w"
    and "fifo_inv i u es (w\<lparr>posted := posted w @ [(url, it, t)]\<rparr>) = fifo_inv i u es w"
  using assms by (auto intro!: fifo_inv_cong simp: sent_to_posted sent_to_update)

lemma fifo_inv_timer:
  assumes "webhookQueues w u = Some qd"
  shows "fifo_inv i u es (arm u qd due w) = fifo_inv i u es w"
  using assms by (simp add: fifo_inv_def split: option.split)

lemma fifo_inv_send:
  assumes inv: "fifo_inv i u es w" and q: "webhookQueues w u = Some qd"
    and hd: "queue qd = it # rest"
    and ok: "\<not> (rateLimit qd > 0 \<and> now - lastSent qd < rateLimit qd * 1000)"
    and pos: "0 < i"
  shows "fifo_inv i u es
           (w\<lparr>webhookQueues := (webhookQueues w)(u \<mapsto> qd\<lparr>queue := rest, lastSent := now\<rparr>),
              posted := posted w @ [(u, it, now)]\<rparr>)"
proof -
  from inv q hd have rl: "rateLimit qd = i" by (simp add: fifo_inv_def)
  with ok pos have far: "i * 1000 \<le> now - lastSent qd" by simp
  show ?thesis
  proof (cases "sent_to u w = []")
    case True
    with inv q hd show ?thesis
      by (simp add: fifo_inv_def sent_to_update)
  next
    case False
    then have "last (map snd (sent_to u w)) = snd (last (sent_to u w))"
      by (simp add: last_map)
    with False inv q hd far show ?thesis
      by (simp add: fifo_inv_def sent_to_update spaced_append)
  qed
qed

lemma processQueue_inv:
  "0 < i \<Longrightarrow> fifo_inv i u es w \<Longrightarrow> fifo_inv i u es (processQueue now url w)"
proof (induction now url w rule: processQueue.induct)
  case (1 now url w)
  show ?case
  proof (cases "webhookQueues w url")
    case None
    with "1.prems" show ?thesis by (subst processQueue.simps) simp
  next
    case (Some qd)
    show ?thesis
    proof (cases "queue qd")
      case Nil
      with Some "1.prems" show ?thesis by (subst processQueue.simps) simp
    next
      case (Cons it rest)
      show ?thesis
      proof (cases "rateLimit qd > 0 \<and> now - lastSent qd < rateLimit qd * 1000")
        case wait: True
        have "fifo_inv i u es
                (arm url qd (now + (rateLimit qd * 1000 - (now - lastSent qd)))
                   (case timer qd of None \<Rightarrow> w | Some h \<Rightarrow> clearTimeout h w))"
        proof (cases "url = u")
          case True
          with Some have "webhookQueues (case timer qd of None \<Rightarrow> w | Some h \<Rightarrow> clearTimeout h w) u
                            = Some qd"
            by (simp split: option.split)
          from fifo_inv_timer[OF this] "1.prems"(2) True show ?thesis
            by (simp split: option.split)
        next
          case False
          with "1.prems"(2) show ?thesis
            by (simp add: fifo_inv_other split: option.split)
        qed
        with Some Cons wait show ?thesis by (subst processQueue.simps) simp
      next
        case send: False
        let ?w = "w\<lparr>webhookQueues := (webhookQueues w)(url \<mapsto> qd\<lparr>queue := rest, lastSent := now\<rparr>),
                     posted := posted w @ [(url, it, now)]\<rparr>"
        have sent: "fifo_inv i u es ?w"
        proof (cases "url = u")
          case True
          with fifo_inv_send[OF "1.prems"(2) _ Cons send "1.prems"(1)] Some show ?thesis by simp
        next
          case False
          with "1.prems"(2) show ?thesis by (simp add: fifo_inv_other)
        qed
        show ?thesis
        proof (cases "rest = []")
          case True
          with Some Cons send sent show ?thesis by (subst processQueue.simps) auto
        next
          case more: False
          show ?thesis
          proof (cases "rateLimit qd > 0")
            case True
            have eq: "arm url (qd\<lparr>queue := rest, lastSent := now\<rparr>) (now + rateLimit qd * 1000)
                        (w\<lparr>posted := posted w @ [(url, it, now)]\<rparr>)
                      = arm url (qd\<lparr>queue := rest, lastSent := now\<rparr>) (now + rateLimit qd * 1000) ?w"
              by (simp add: arm_def)
            have "webhookQueues ?w url = Some (qd\<lparr>queue := rest, lastSent := now\<rparr>)" by simp
            have "fifo_inv i u es
                    (arm url (qd\<lparr>queue := rest, lastSent := now\<rparr>) (now + rateLimit qd * 1000) ?w)"
            proof (cases "url = u")
              case True
              then have "webhookQueues ?w u = Some (qd\<lparr>queue := rest, lastSent := now\<rparr>)" by simp
              from fifo_inv_timer[OF this] sent True show ?thesis by simp
            next
              case False
              with sent show ?thesis by (simp add: fifo_inv_other)
            qed
            with eq Some Cons send more True show ?thesis
              by (subst processQueue.simps) auto
          next
            case False
            have "fifo_inv i u es (processQueue now url ?w)"
              using "1.IH"[OF Some Cons send more False "1.prems"(1) sent] .
            with Some Cons send more False show ?thesis
              by (subst processQueue.simps) auto
          qed
        qed
      qed
    qed
  qed
qed

lemma addToQueue_inv:
  assumes "0 < i" and "fifo_inv i u es w" and "url = u \<longrightarrow> rl = i"
  shows "fifo_inv i u
           (if url = u then es @ [\<lparr>payload = pl, webhookName = nm, timestamp = now\<rparr>] else es)
           (addToQueue now url pl nm rl w)"
proof -
  let ?qd = "case webhookQueues w url of
               None \<Rightarrow> \<lparr>queue = [], lastSent = 0, timer = None, rateLimit = rl\<rparr>
             | Some qd \<Rightarrow> qd"
  let ?pushed = "?qd\<lparr>rateLimit := rl,
                    queue := queue ?qd @ [\<lparr>payload = pl, webhookName = nm, timestamp = now\<rparr>]\<rparr>"
  let ?es = "if url = u then es @ [\<lparr>payload = pl, webhookName = nm, timestamp = now\<rparr>] else es"
  have pushed: "fifo_inv i u ?es
                  (w\<lparr>webhookQueues := (webhookQueues w)(url \<mapsto> ?pushed), queueNotices := ns\<rparr>)"
    for ns
    using assms(2,3) by (auto simp: fifo_inv_def sent_to_def split: option.splits)
  show ?thesis
    unfolding addToQueue_def Let_def
    by (rule processQueue_inv[OF assms(1) pushed])
qed

lemma initializeQueues_inv:
  "list_all (\<lambda>wh. fst wh = u \<longrightarrow> snd wh = Some i) webhooks \<Longrightarrow> fifo_inv i u es w \<Longrightarrow>
     fifo_inv i u es (initializeQueues webhooks w)"
proof (induction webhooks arbitrary: w)
  case Nil
  then show ?case by simp
next
  case (Cons wh webhooks)
  obtain url rl where wh: "wh = (url, rl)" by (cases wh)
  from Cons.prems wh have conf: "url = u \<longrightarrow> rl = Some i"
    and rest: "list_all (\<lambda>wh. fst wh = u \<longrightarrow> snd wh = Some i) webhooks" by auto
  have "fifo_inv i u es
          (w\<lparr>webhookQueues :=
               (webhookQueues w)
                 (url \<mapsto>
                    (case webhookQueues w url of
                       None \<Rightarrow> \<lparr>queue = [], lastSent = 0, timer = None,
                                rateLimit = (case rl of None \<Rightarrow> 0 | Some r \<Rightarrow> r)\<rparr>
                     | Some qd \<Rightarrow> qd\<lparr>rateLimit := (case rl of None \<Rightarrow> 0 | Some r \<Rightarrow> r)\<rparr>))\<rparr>)"
    using Cons.prems(2) conf by (auto simp: fifo_inv_def sent_to_def split: option.splits)
  from Cons.IH[OF rest this] wh show ?case by simp
qed

lemma step_inv:
  assumes "0 < i" and "fifo_inv i u es w" and "configured u i ev"
  shows "fifo_inv i u (es @ enqueued u [ev]) (step ev w)"
proof -
  obtain now e where ev: "ev = (now, e)" by (cases ev)
  show ?thesis
  proof (cases e)
    case (AddToQueue url pl nm rl)
    with assms(3) ev have "url = u \<longrightarrow> rl = i" by simp
    from addToQueue_inv[OF assms(1,2) this, of pl nm now] ev AddToQueue
    show ?thesis by (cases "url = u") simp_all
  next
    case (WebhooksChanged webhooks)
    with assms(3) ev initializeQueues_inv[OF _ assms(2)] show ?thesis by simp
  next
    case (TimerFires h)
    with ev assms(1,2) show ?thesis
      by (auto split: option.splits intro!: processQueue_inv)
  qed
qed

lemma enqueued_Cons: "enqueued u (ev # evs) = enqueued u [ev] @ enqueued u evs"
proof -
  obtain now e where "ev = (now, e)" by (cases ev)
  then show ?thesis by (cases e) simp_all
qed

lemma run_inv:
  "0 < i \<Longrightarrow> fifo_inv i u es w \<Longrightarrow> list_all (configured u i) evs \<Longrightarrow>
     fifo_inv i u (es @ enqueued u evs) (run evs w)"
proof (induction evs arbitrary: es w)
  case Nil
  then show ?case by (simp add: run_def)
next
  case (Cons ev evs)
  from Cons.prems have c: "configured u i ev" and cs: "list_all (configured u i) evs" by auto
  have "fifo_inv i u ((es @ enqueued u [ev]) @ enqueued u evs) (run evs (step ev w))"
    by (rule Cons.IH[OF Cons.prems(1) step_inv[OF Cons.prems(1,2) c] cs])
  then show ?case
    by (simp add: run_def enqueued_Cons[of u ev evs])
qed

lemma start_inv: "fifo_inv i u [] start"
  by (simp add: fifo_inv_def start_def sent_to_def)

subsection \<open>The timers\<close>

lemma find_distinct:
  "distinct (map fst ts) \<Longrightarrow> (h, x, d) \<in> set ts \<Longrightarrow> find (\<lambda>t. fst t = h) ts = Some (h, x, d)"
  by (induction ts) (auto simp: rev_image_eqI)

lemma handles_posted [simp]: "handles_inv u (w\<lparr>posted := p\<rparr>) = handles_inv u w"
  by (simp add: handles_inv_def)

lemma armed_posted [simp]: "armed i u (w\<lparr>posted := p\<rparr>) = armed i u w"
  by (simp add: armed_def split: option.split)

lemma handles_clearTimeout: "handles_inv u w \<Longrightarrow> handles_inv u (clearTimeout h w)"
  unfolding handles_inv_def clearTimeout_def
  by (intro conjI) (simp add: distinct_map_filter, simp, simp, (simp, blast))

lemma handles_arm:
  assumes "handles_inv u w"
  shows "handles_inv u (arm url qd due w)"
proof -
  from assms have d: "distinct (map fst (timeouts w))"
    and lt: "\<forall>t \<in> set (timeouts w). fst t < nextHandle w"
    and st: "\<forall>v qd h. webhookQueues w v = Some qd \<and> timer qd = Some h \<longrightarrow> h < nextHandle w"
    and ot: "\<forall>v qd qd' h. v \<noteq> u \<and> webhookQueues w v = Some qd \<and> timer qd = Some h
             \<and> webhookQueues w u = Some qd' \<longrightarrow> timer qd' \<noteq> Some h"
    unfolding handles_inv_def by blast+
  have "distinct (map fst (timeouts (arm url qd due w)))"
    using d lt by (auto simp: arm_def)
  moreover have "\<forall>t \<in> set (timeouts (arm url qd due w)). fst t < nextHandle (arm url qd due w)"
    using lt by (auto simp: arm_def less_Suc_eq)
  moreover have "\<forall>v qd0 h. webhookQueues (arm url qd due w) v = Some qd0 \<and> timer qd0 = Some h
                   \<longrightarrow> h < nextHandle (arm url qd due w)"
    using st by (auto simp: arm_def less_Suc_eq split: if_splits)
  moreover have "\<forall>v qd0 qd' h. v \<noteq> u \<and> webhookQueues (arm url qd due w) v = Some qd0
                   \<and> timer qd0 = Some h \<and> webhookQueues (arm url qd due w) u = Some qd'
                   \<longrightarrow> timer qd' \<noteq> Some h"
  proof (intro allI impI)
    fix v qd0 qd' h
    assume a: "v \<noteq> u \<and> webhookQueues (arm url qd due w) v = Some qd0
                   \<and> timer qd0 = Some h \<and> webhookQueues (arm url qd due w) u = Some qd'"
    show "timer qd' \<noteq> Some h"
    proof (cases "url = u")
      case True
      with a have "webhookQueues w v = Some qd0" "timer qd' = Some (nextHandle w)"
        by (auto simp: arm_def)
      with a st show ?thesis by fastforce
    next
      case False
      with a have u: "webhookQueues w u = Some qd'" by (simp add: arm_def)
      show ?thesis
      proof (cases "url = v")
        case True
        with a have "h = nextHandle w" by (auto simp: arm_def)
        with u st show ?thesis by fastforce
      next
        case False
        with a have "webhookQueues w v = Some qd0" by (simp add: arm_def)
        with a u ot show ?thesis by blast
      qed
    qed
  qed
  ultimately show ?thesis unfolding handles_inv_def by blast
qed

lemma handles_update:
  assumes inv: "handles_inv u w"
    and tm: "timer qd' = None \<or> (\<exists>qd. webhookQueues w url = Some qd \<and> timer qd' = timer qd)"
    and q: "webhookQueues w' = (webhookQueues w)(url \<mapsto> qd')"
    and t: "timeouts w' = timeouts w" and n: "nextHandle w' = nextHandle w"
  shows "handles_inv u w'"
proof -
  from inv have d: "distinct (map fst (timeouts w))"
    and lt: "\<forall>t \<in> set (timeouts w). fst t < nextHandle w"
    and st: "\<forall>v qd h. webhookQueues w v = Some qd \<and> timer qd = Some h \<longrightarrow> h < nextHandle w"
    and ot: "\<forall>v qd qd' h. v \<noteq> u \<and> webhookQueues w v = Some qd \<and> timer qd = Some h
             \<and> webhookQueues w u = Some qd' \<longrightarrow> timer qd' \<noteq> Some h"
    unfolding handles_inv_def by blast+
  have stored: "\<exists>qd. webhookQueues w v = Some qd \<and> timer qd = Some h"
    if "webhookQueues w' v = Some qd0" "timer qd0 = Some h" for v qd0 h
    using that tm q by (cases "v = url") auto
  have "\<forall>v qd0 h. webhookQueues w' v = Some qd0 \<and> timer qd0 = Some h \<longrightarrow> h < nextHandle w'"
    using stored st n by metis
  moreover have "\<forall>v qd0 qd1 h. v \<noteq> u \<and> webhookQueues w' v = Some qd0 \<and> timer qd0 = Some h
                   \<and> webhookQueues w' u = Some qd1 \<longrightarrow> timer qd1 \<noteq> Some h"
  proof (intro allI impI notI)
    fix v qd0 qd1 h
    assume a: "v \<noteq> u \<and> webhookQueues w' v = Some qd0 \<and> timer qd0 = Some h
                   \<and> webhookQueues w' u = Some qd1" and b: "timer qd1 = Some h"
    from a stored obtain qa where qa: "webhookQueues w v = Some qa" "timer qa = Some h" by blast
    from a b stored obtain qb where qb: "webhookQueues w u = Some qb" "timer qb = Some h" by blast
    from a qa qb ot show False by blast
  qed
  ultimately show ?thesis using d lt t n unfolding handles_inv_def by simp
qed

lemma processQueue_handles:
  "handles_inv u w \<Longrightarrow> handles_inv u (processQueue now url w)"
proof (induction now url w rule: processQueue.induct)
  case (1 now url w)
  show ?case
  proof (cases "webhookQueues w url")
    case None
    with "1.prems" show ?thesis by (subst processQueue.simps) simp
  next
    case (Some qd)
    show ?thesis
    proof (cases "queue qd")
      case Nil
      with Some "1.prems" show ?thesis by (subst processQueue.simps) simp
    next
      case (Cons it rest)
      show ?thesis
      proof (cases "rateLimit qd > 0 \<and> now - lastSent qd < rateLimit qd * 1000")
        case wait: True
        have "handles_inv u (case timer qd of None \<Rightarrow> w | Some h \<Rightarrow> clearTimeout h w)"
          using "1.prems" by (simp add: handles_clearTimeout split: option.split)
        from handles_arm[OF this] Some Cons wait show ?thesis
          by (subst processQueue.simps) simp
      next
        case send: False
        let ?w = "w\<lparr>webhookQueues := (webhookQueues w)(url \<mapsto> qd\<lparr>queue := rest, lastSent := now\<rparr>),
                     posted := posted w @ [(url, it, now)]\<rparr>"
        have sent: "handles_inv u ?w"
          by (rule handles_update[OF "1.prems"]) (use Some in auto)
        show ?thesis
        proof (cases "rest = []")
          case True
          with Some Cons send sent show ?thesis by (subst processQueue.simps) auto
        next
          case more: False
          show ?thesis
          proof (cases "rateLimit qd > 0")
            case True
            have "handles_inv u (arm url (qd\<lparr>queue := rest, lastSent := now\<rparr>)
                     (now + rateLimit qd * 1000) (w\<lparr>posted := posted w @ [(url, it, now)]\<rparr>))"
              by (rule handles_arm) (simp add: "1.prems")
            with Some Cons send more True show ?thesis
              by (subst processQueue.simps) auto
          next
            case False
            have "handles_inv u (processQueue now url ?w)"
              using "1.IH"[OF Some Cons send more False sent] .
            with Some Cons send more False show ?thesis
              by (subst processQueue.simps) auto
          qed
        qed
      qed
    qed
  qed
qed


lemma armed_cong:
  "webhookQueues w' u = webhookQueues w u \<Longrightarrow> set (timeouts w) \<subseteq> set (timeouts w') \<Longrightarrow>
     armed i u w \<Longrightarrow> armed i u w'"
  by (auto simp: armed_def split: option.splits)

lemma armed_arm_self:
  "due = lastSent qd + i * 1000 \<Longrightarrow> armed i u (arm u qd due w)"
  by (simp add: armed_def arm_def)

lemma armed_arm_other:
  assumes "url \<noteq> u" and "armed i u w"
  shows "armed i u (arm url qd due w)"
  using assms(2) by (rule armed_cong[rotated 2]) (use assms(1) in \<open>auto simp: arm_def\<close>)

lemma armed_clearTimeout_other:
  assumes inv: "handles_inv u w" and a: "armed i u w" and ne: "url \<noteq> u"
    and q: "webhookQueues w url = Some qd" and t: "timer qd = Some h"
  shows "armed i u (clearTimeout h w)"
proof (cases "webhookQueues w u")
  case None
  then show ?thesis by (simp add: armed_def)
next
  case (Some qu)
  from inv ne q t Some have "timer qu \<noteq> Some h"
    unfolding handles_inv_def by blast
  with a Some show ?thesis
    by (auto simp: armed_def clearTimeout_def)
qed

lemma processQueue_armed:
  assumes "0 < i"
  shows "handles_inv u w \<Longrightarrow>
         (\<forall>qd. webhookQueues w u = Some qd \<longrightarrow> queue qd = [] \<or> rateLimit qd = i) \<Longrightarrow>
         url = u \<or> armed i u w \<Longrightarrow> armed i u (processQueue now url w)"
proof (induction now url w rule: processQueue.induct)
  case (1 now url w)
  note inv = "1.prems"(1) and rate = "1.prems"(2) and pre = "1.prems"(3)
  show ?case
  proof (cases "webhookQueues w url")
    case None
    with pre have "armed i u w" by (auto simp: armed_def)
    with None show ?thesis by (subst processQueue.simps) simp
  next
    case (Some qd)
    show ?thesis
    proof (cases "queue qd")
      case Nil
      with pre Some have "armed i u w" by (auto simp: armed_def)
      with Some Nil show ?thesis by (subst processQueue.simps) simp
    next
      case (Cons it rest)
      show ?thesis
      proof (cases "rateLimit qd > 0 \<and> now - lastSent qd < rateLimit qd * 1000")
        case wait: True
        let ?w = "case timer qd of None \<Rightarrow> w | Some h \<Rightarrow> clearTimeout h w"
        have "armed i u (arm url qd (now + (rateLimit qd * 1000 - (now - lastSent qd))) ?w)"
        proof (cases "url = u")
          case True
          with rate Some Cons have rl: "rateLimit qd = i" by auto
          have "armed i u (arm u qd (now + (rateLimit qd * 1000 - (now - lastSent qd))) ?w)"
            by (rule armed_arm_self) (simp add: rl)
          with True show ?thesis by simp
        next
          case False
          with pre have a: "armed i u w" by simp
          have "armed i u ?w"
          proof (cases "timer qd")
            case None
            with a show ?thesis by simp
          next
            case (Some h)
            from armed_clearTimeout_other[OF inv a False \<open>webhookQueues w url = Some qd\<close> Some] Some
            show ?thesis by simp
          qed
          with False show ?thesis by (rule armed_arm_other)
        qed
        with Some Cons wait show ?thesis by (subst processQueue.simps) simp
      next
        case send: False
        let ?w = "w\<lparr>webhookQueues := (webhookQueues w)(url \<mapsto> qd\<lparr>queue := rest, lastSent := now\<rparr>),
                     posted := posted w @ [(url, it, now)]\<rparr>"
        show ?thesis
        proof (cases "rest = []")
          case True
          have "armed i u ?w"
          proof (cases "url = u")
            case u: True
            with True show ?thesis by (simp add: armed_def)
          next
            case False
            with pre have "armed i u w" by simp
            then show ?thesis by (rule armed_cong[rotated 2]) (use False in auto)
          qed
          with True Some Cons send show ?thesis by (subst processQueue.simps) auto
        next
          case more: False
          show ?thesis
          proof (cases "rateLimit qd > 0")
            case True
            have "armed i u (arm url (qd\<lparr>queue := rest, lastSent := now\<rparr>)
                     (now + rateLimit qd * 1000) (w\<lparr>posted := posted w @ [(url, it, now)]\<rparr>))"
            proof (cases "url = u")
              case u: True
              with rate Some Cons have rl: "rateLimit qd = i" by auto
              have "armed i u (arm u (qd\<lparr>queue := rest, lastSent := now\<rparr>)
                     (now + rateLimit qd * 1000) (w\<lparr>posted := posted w @ [(url, it, now)]\<rparr>))"
                by (rule armed_arm_self) (simp add: rl)
              with u show ?thesis by simp
            next
              case False
              with pre have "armed i u (w\<lparr>posted := posted w @ [(url, it, now)]\<rparr>)" by simp
              with False show ?thesis by (rule armed_arm_other)
            qed
            with Some Cons send more True show ?thesis
              by (subst processQueue.simps) auto
          next
            case False
            have ne: "url \<noteq> u"
            proof
              assume "url = u"
              with rate Some Cons have "rateLimit qd = i" by auto
              with False assms show False by simp
            qed
            have h: "handles_inv u ?w"
              by (rule handles_update[OF inv]) (use Some in auto)
            have r: "\<forall>qd. webhookQueues ?w u = Some qd \<longrightarrow> queue qd = [] \<or> rateLimit qd = i"
              using rate ne by simp
            from pre ne have "armed i u w" by simp
            then have a: "url = u \<or> armed i u ?w"
              by (intro disjI2) (rule armed_cong[rotated 2], use ne in auto)
            have "armed i u (processQueue now url ?w)"
              using "1.IH"[OF Some Cons send more False h r a] .
            with Some Cons send more False show ?thesis
              by (subst processQueue.simps) auto
          qed
        qed
      qed
    qed
  qed
qed


lemma fifo_inv_rate:
  "fifo_inv i u es w \<Longrightarrow>
     \<forall>qd. webhookQueues w u = Some qd \<longrightarrow> queue qd = [] \<or> rateLimit qd = i"
  by (auto simp: fifo_inv_def)

lemma addToQueue_timers:
  assumes pos: "0 < i" and f: "fifo_inv i u es w" and h: "handles_inv u w"
    and a: "armed i u w" and c: "url = u \<longrightarrow> rl = i"
  shows "handles_inv u (addToQueue now url pl nm rl w)
       \<and> armed i u (addToQueue now url pl nm rl w)"
proof -
  let ?qd = "case webhookQueues w url of
               None \<Rightarrow> \<lparr>queue = [], lastSent = 0, timer = None, rateLimit = rl\<rparr>
             | Some qd \<Rightarrow> qd"
  let ?pushed = "?qd\<lparr>rateLimit := rl,
                    queue := queue ?qd @ [\<lparr>payload = pl, webhookName = nm, timestamp = now\<rparr>]\<rparr>"
  have h': "handles_inv u (w\<lparr>webhookQueues := (webhookQueues w)(url \<mapsto> ?pushed),
                            queueNotices := ns\<rparr>)" for ns
    by (rule handles_update[OF h, where url = url and qd' = "?pushed"])
       (auto split: option.splits)
  have r': "\<forall>qd. webhookQueues (w\<lparr>webhookQueues := (webhookQueues w)(url \<mapsto> ?pushed),
                                    queueNotices := ns\<rparr>) u = Some qd
                \<longrightarrow> queue qd = [] \<or> rateLimit qd = i" for ns
    using fifo_inv_rate[OF f] c by auto
  have a': "url = u \<or> armed i u (w\<lparr>webhookQueues := (webhookQueues w)(url \<mapsto> ?pushed),
                                     queueNotices := ns\<rparr>)" for ns
  proof (cases "url = u")
    case False
    have "armed i u (w\<lparr>webhookQueues := (webhookQueues w)(url \<mapsto> ?pushed),
                                     queueNotices := ns\<rparr>)"
      using a by (rule armed_cong[rotated 2]) (use False in auto)
    then show ?thesis ..
  qed simp
  show ?thesis
    unfolding addToQueue_def Let_def
    by (intro conjI processQueue_handles processQueue_armed[OF pos] h' r' a')
qed

lemma initializeQueues_timers:
  "handles_inv u w \<Longrightarrow> armed i u w \<Longrightarrow>
     handles_inv u (initializeQueues webhooks w) \<and> armed i u (initializeQueues webhooks w)"
proof (induction webhooks arbitrary: w)
  case Nil
  then show ?case by simp
next
  case (Cons wh webhooks)
  obtain url rl where wh: "wh = (url, rl)" by (cases wh)
  let ?qd = "case webhookQueues w url of
               None \<Rightarrow> \<lparr>queue = [], lastSent = 0, timer = None,
                        rateLimit = (case rl of None \<Rightarrow> 0 | Some r \<Rightarrow> r)\<rparr>
             | Some qd \<Rightarrow> qd\<lparr>rateLimit := (case rl of None \<Rightarrow> 0 | Some r \<Rightarrow> r)\<rparr>"
  let ?w = "w\<lparr>webhookQueues := (webhookQueues w)(url \<mapsto> ?qd)\<rparr>"
  have h: "handles_inv u ?w"
    by (rule handles_update[OF Cons.prems(1), where url = url and qd' = "?qd"])
       (auto split: option.splits)
  have a: "armed i u ?w"
    using Cons.prems(2) by (auto simp: armed_def split: option.splits)
  from Cons.IH[OF h a] wh show ?case by simp
qed

lemma find_entry:
  "find (\<lambda>t. fst t = h) ts = Some (h', x, d) \<Longrightarrow> h' = h \<and> (h, x, d) \<in> set ts"
  by (induction ts) (auto split: if_splits)

lemma armed_clearTimeout_fired:
  assumes inv: "handles_inv u w" and a: "armed i u w"
    and e: "(h, x, d) \<in> set (timeouts w)" and ne: "x \<noteq> u"
  shows "armed i u (clearTimeout h w)"
proof (cases "webhookQueues w u")
  case None
  then show ?thesis by (simp add: armed_def)
next
  case (Some qu)
  from inv have dist: "distinct (map fst (timeouts w))" by (simp add: handles_inv_def)
  have "h' \<noteq> h" if "(h', u, d') \<in> set (timeouts w)" for h' d'
  proof
    assume "h' = h"
    with that find_distinct[OF dist e] find_distinct[OF dist that] ne show False by simp
  qed
  with a Some show ?thesis
    by (auto simp: armed_def clearTimeout_def)
qed

lemma step_timers:
  assumes pos: "0 < i" and f: "fifo_inv i u es w" and h: "handles_inv u w"
    and a: "armed i u w" and c: "configured u i ev"
  shows "handles_inv u (step ev w) \<and> armed i u (step ev w)"
proof -
  obtain now e where ev: "ev = (now, e)" by (cases ev)
  show ?thesis
  proof (cases e)
    case (AddToQueue url pl nm rl)
    with c ev have "url = u \<longrightarrow> rl = i" by simp
    from addToQueue_timers[OF pos f h a this] ev AddToQueue show ?thesis by simp
  next
    case (WebhooksChanged webhooks)
    with initializeQueues_timers[OF h a] ev show ?thesis by simp
  next
    case (TimerFires hd)
    show ?thesis
    proof (cases "find (\<lambda>t. fst t = hd) (timeouts w)")
      case None
      with ev TimerFires h a show ?thesis by simp
    next
      case (Some t)
      obtain h' x d where t: "t = (h', x, d)" by (cases t)
      from find_entry[of hd "timeouts w" h' x d] Some t
      have e: "(hd, x, d) \<in> set (timeouts w)" by simp
      have h1: "handles_inv u (clearTimeout hd w)" by (rule handles_clearTimeout[OF h])
      have r1: "\<forall>qd. webhookQueues (clearTimeout hd w) u = Some qd
                  \<longrightarrow> queue qd = [] \<or> rateLimit qd = i"
        using fifo_inv_rate[OF f] by simp
      have a1: "x = u \<or> armed i u (clearTimeout hd w)"
        using armed_clearTimeout_fired[OF h a e] by blast
      from processQueue_handles[OF h1] processQueue_armed[OF pos h1 r1 a1] ev TimerFires Some t
      show ?thesis by simp
    qed
  qed
qed

lemma run_timers:
  "0 < i \<Longrightarrow> fifo_inv i u es w \<Longrightarrow> handles_inv u w \<Longrightarrow> armed i u w \<Longrightarrow>
     list_all (configured u i) evs \<Longrightarrow>
     handles_inv u (run evs w) \<and> armed i u (run evs w)"
proof (induction evs arbitrary: es w)
  case Nil
  then show ?case by (simp add: run_def)
next
  case (Cons ev evs)
  from Cons.prems have c: "configured u i ev" and cs: "list_all (configured u i) evs" by auto
  note s = step_timers[OF Cons.prems(1,2,3,4) c]
  from Cons.IH[OF Cons.prems(1) step_inv[OF Cons.prems(1,2) c] s[THEN conjunct1] s[THEN conjunct2] cs]
  show ?case by (simp add: run_def)
qed

lemma start_timers: "handles_inv u start \<and> armed i u start"
  by (simp add: handles_inv_def armed_def start_def)


lemma timer_sends:
  assumes pos: "0 < i" and f: "fifo_inv i u es w" and h: "handles_inv u w"
    and a: "armed i u w"
  shows "case alarm u w of
           None \<Rightarrow> waiting u w = []
         | Some (h, due) \<Rightarrow>
             waiting u w = []
             \<or> ((sent_to u w = [] \<or> due = snd (last (sent_to u w)) + i * 1000)
                \<and> (\<forall>now \<ge> due.
                      sent_to u (step (now, TimerFires h) w)
                        = sent_to u w @ [(hd (waiting u w), now)]
                    \<and> waiting u (step (now, TimerFires h) w) = tl (waiting u w)))"
proof (cases "webhookQueues w u")
  case None
  then show ?thesis by (simp add: alarm_def waiting_def)
next
  case (Some qd)
  show ?thesis
  proof (cases "queue qd")
    case Nil
    with Some have "waiting u w = []" by (simp add: waiting_def)
    then show ?thesis by (simp split: option.split prod.split)
  next
    case (Cons it rest)
    with a Some obtain hh where hh: "timer qd = Some hh"
      and e: "(hh, u, lastSent qd + i * 1000) \<in> set (timeouts w)"
      by (auto simp: armed_def)
    from h have "distinct (map fst (timeouts w))" by (simp add: handles_inv_def)
    from find_distinct[OF this e]
    have fnd: "find (\<lambda>t. fst t = hh) (timeouts w) = Some (hh, u, lastSent qd + i * 1000)" .
    with Some hh have al: "alarm u w = Some (hh, lastSent qd + i * 1000)"
      by (simp add: alarm_def)
    from f Some Cons have rl: "rateLimit qd = i"
      and ls: "sent_to u w = [] \<or> lastSent qd = snd (last (sent_to u w))"
      by (auto simp: fifo_inv_def)
    have wt: "waiting u w = it # rest" using Some Cons by (simp add: waiting_def)
    have fire: "sent_to u (step (now, TimerFires hh) w) = sent_to u w @ [(it, now)]
              \<and> waiting u (step (now, TimerFires hh) w) = rest"
      if "lastSent qd + i * 1000 \<le> now" for now
    proof -
      have q: "webhookQueues (clearTimeout hh w) u = Some qd" using Some by simp
      from that rl have go: "\<not> (rateLimit qd > 0 \<and> now - lastSent qd < rateLimit qd * 1000)"
        by simp
      have "sent_to u (processQueue now u (clearTimeout hh w)) = sent_to u w @ [(it, now)]
          \<and> waiting u (processQueue now u (clearTimeout hh w)) = rest"
        using q Cons go rl pos
        by (subst processQueue.simps, subst (2) processQueue.simps)
           (auto simp: sent_to_update sent_to_posted waiting_def)
      with fnd show ?thesis by simp
    qed
    from al wt ls fire show ?thesis by auto
  qed
qed

lemma three_configured: "list_all (configured hook 30) three_enqueued"
  by code_simp

lemma three_sent:
  "sent_to hook (run three_enqueued start)
     = [(entry ''e1'' 1000000, 1000000), (entry ''e2'' 1000001, 1030001),
        (entry ''e3'' 1000003, 1060005)]"
  by code_simp

lemma three_waiting: "waiting hook (run three_enqueued start) = []"
  by code_simp

lemma three_entries:
  "enqueued hook three_enqueued
     = [entry ''e1'' 1000000, entry ''e2'' 1000001, entry ''e3'' 1000003]"
  by code_simp

lemma two_configured: "list_all (configured hook 30) two_enqueued"
  by code_simp

lemma two_state:
  "sent_to hook (run two_enqueued start) = [(entry ''e1'' 1000000, 1000000)]"
  "waiting hook (run two_enqueued start) = [entry ''e2'' 1000001]"
  "alarm hook (run two_enqueued start) = Some (1, 1030000)"
  by code_simp+

lemma two_fired:
  "sent_to hook (step (1030007, TimerFires 1) (run two_enqueued start))
     = [(entry ''e1'' 1000000, 1000000), (entry ''e2'' 1000001, 1030007)]"
  "waiting hook (step (1030007, TimerFires 1) (run two_enqueued start)) = []"
  by code_simp+

text \<open>
  C2.  Take an endpoint \<open>u\<close> whose rate limit is \<open>i > 0\<close> seconds in every call of
  \<^verbatim>\<open>addToQueue\<close> for it and in every stored configuration, and any sequence of events
  from the initial state, the events of other endpoints among them.  The entries sent
  to \<open>u\<close>, followed by those still waiting in its queue, are the entries enqueued for
  \<open>u\<close> in the order of enqueuing: nothing overtakes, nothing is lost or sent twice.
  Any two consecutive sends to \<open>u\<close> are at least \<open>i\<close> seconds apart.  And the
  queue does not stall: while entries wait, the timer that \<open>u\<close> stores is pending and
  due \<open>i\<close> seconds after the latest send, and when it fires, at the time it is due or
  later, the entry at the head of the queue is sent then and leaves the queue.
\<close>

theorem fifo_and_spacing:
  assumes "0 < i" and "list_all (configured u i) evs"
  shows "map fst (sent_to u (run evs start)) @ waiting u (run evs start) = enqueued u evs
       \<and> spaced (i * 1000) (map snd (sent_to u (run evs start)))
       \<and> (case alarm u (run evs start) of
            None \<Rightarrow> waiting u (run evs start) = []
          | Some (h, due) \<Rightarrow>
              waiting u (run evs start) = []
              \<or> ((sent_to u (run evs start) = []
                    \<or> due = snd (last (sent_to u (run evs start))) + i * 1000)
                 \<and> (\<forall>now \<ge> due.
                       sent_to u (step (now, TimerFires h) (run evs start))
                         = sent_to u (run evs start) @ [(hd (waiting u (run evs start)), now)]
                     \<and> waiting u (step (now, TimerFires h) (run evs start))
                         = tl (waiting u (run evs start)))))"
proof -
  from run_inv[OF assms(1) start_inv assms(2)]
  have f: "fifo_inv i u (enqueued u evs) (run evs start)" by simp
  from run_timers[OF assms(1) start_inv _ _ assms(2)] start_timers
  have t: "handles_inv u (run evs start)" "armed i u (run evs start)" by blast+
  from f have "map fst (sent_to u (run evs start)) @ waiting u (run evs start) = enqueued u evs
       \<and> spaced (i * 1000) (map snd (sent_to u (run evs start)))"
    by (auto simp: fifo_inv_def waiting_def split: option.splits)
  with timer_sends[OF assms(1) f t] show ?thesis by blast
qed

theorem fifo_and_spacing_witness:
  "(0::int) < 30 \<and> list_all (configured hook 30) three_enqueued
   \<and> enqueued hook three_enqueued
       = [entry ''e1'' 1000000, entry ''e2'' 1000001, entry ''e3'' 1000003]
   \<and> map fst (sent_to hook (run three_enqueued start))
       = [entry ''e1'' 1000000, entry ''e2'' 1000001, entry ''e3'' 1000003]
   \<and> map snd (sent_to hook (run three_enqueued start)) = [1000000, 1030001, 1060005]
   \<and> spaced (30 * 1000) [1000000, 1030001, 1060005]
   \<and> list_all (configured hook 30) two_enqueued
   \<and> alarm hook (run two_enqueued start) = Some (1, 1030000)
   \<and> waiting hook (run two_enqueued start) = [entry ''e2'' 1000001]
   \<and> sent_to hook (run two_enqueued start) = [(entry ''e1'' 1000000, 1000000)]
   \<and> (1030000::int) = 1000000 + 30 * 1000 \<and> (1030000::int) \<le> 1030007
   \<and> sent_to hook (step (1030007, TimerFires 1) (run two_enqueued start))
       = [(entry ''e1'' 1000000, 1000000), (entry ''e2'' 1000001, 1030007)]
   \<and> waiting hook (step (1030007, TimerFires 1) (run two_enqueued start)) = []"
  using fifo_and_spacing [of 30 hook three_enqueued] three_configured three_sent
        three_waiting three_entries
        fifo_and_spacing [of 30 hook two_enqueued] two_configured two_state two_fired
  by simp

end
